theory Spec2Isabelle
  imports Main "HOL-Library.Sublist"
begin

section \<open>Strings and qualified names\<close>

text \<open>
  \<^verbatim>\<open>std::string::find(pat)\<close>: the position of the first occurrence of \<open>pat\<close>, or
  \<^verbatim>\<open>npos\<close> (here \<open>None\<close>).
\<close>

fun str_find :: "string \<Rightarrow> string \<Rightarrow> nat option" where
  "str_find [] pat = (if pat = [] then Some 0 else None)"
| "str_find (c # cs) pat =
     (if prefix pat (c # cs) then Some 0 else map_option Suc (str_find cs pat))"

text \<open>
  A \<^verbatim>\<open>c10::QualifiedName\<close> is its sequence of atoms; \<^verbatim>\<open>qualifiedName()\<close> is the atoms
  joined with dots. The class keeps every atom non-empty.
\<close>

type_synonym qualified_name = "string list"

fun join_dot :: "string list \<Rightarrow> string" where
  "join_dot [] = []"
| "join_dot [a] = a"
| "join_dot (a # b # bs) = a @ ''.'' @ join_dot (b # bs)"

definition qualifiedName :: "qualified_name \<Rightarrow> string" where
  "qualifiedName q = join_dot q"

subsection \<open>TidyClassNameFromTorchScript\<close>

text \<open>The body of the \<^verbatim>\<open>for\<close> loop over the atoms, with \<open>out\<close> as the accumulator.\<close>

fun tidy_loop :: "string \<Rightarrow> string list \<Rightarrow> string" where
  "tidy_loop out [] = out"
| "tidy_loop out (atom # atoms) =
     (let isInternalTorchAtom = (atom = ''__torch__'');
          isMangleAtom = (str_find atom ''__torch_mangle'' \<noteq> None)
      in if \<not> isInternalTorchAtom \<and> \<not> isMangleAtom
         then tidy_loop ((if out \<noteq> [] then out @ ''.'' else out) @ atom) atoms
         else tidy_loop out atoms)"

fun TidyClassNameFromTorchScript :: "qualified_name option \<Rightarrow> string" where
  "TidyClassNameFromTorchScript None = ''UNKNOWN_CLASS''"
| "TidyClassNameFromTorchScript (Some class_name) = tidy_loop [] class_name"

section \<open>The IR: nodes, values, blocks, graphs\<close>

text \<open>
  The pass works on the heap of IR objects. Objects are addressed by identifiers (the
  pointers of the source). A \<^verbatim>\<open>Value*\<close> is the pair of its producer and its offset
  among the producer's outputs, so \<^verbatim>\<open>v->node()\<close> is \<open>fst v\<close>.
\<close>

type_synonym nid = nat
type_synonym bid = nat
type_synonym gid = nat
type_synonym fid = nat
type_synonym val = "nid \<times> nat"

datatype kind =
    prim_CallFunction | prim_CallMethod | prim_Constant | prim_Param | prim_Return
  | aten_interpolate | other_kind string

text \<open>
  Types: a class type carries its optional qualified name and its methods, a function
  type its function; \<open>NamedOtherType\<close> is any other \<^verbatim>\<open>c10::NamedType\<close>, \<open>OtherType\<close>
  any type that is not named.
\<close>

datatype ty =
    ClassType "qualified_name option" "(string \<times> fid) list"
  | FunctionType fid
  | NamedOtherType "qualified_name option"
  | OtherType

text \<open>
  A scope is the path of frames from the root; the blank root scope is the empty path,
  and \<^verbatim>\<open>push\<close> extends the path by one frame.
\<close>

type_synonym frame = "string \<times> string"
type_synonym scope = "frame list"

text \<open>
  Modelled from the spec: \<^verbatim>\<open>ONNXScopeName::createFullScopeName\<close> is not part of the source
  file. It "combines the tidied class name and resolved variable name into one opaque scope
  identifier" and reads nothing but its two arguments; the identifier is kept as the pair
  of the two labels.
\<close>

definition createFullScopeName :: "string \<Rightarrow> string \<Rightarrow> frame" where
  "createFullScopeName class_name variable_name = (class_name, variable_name)"

definition isBlank :: "scope \<Rightarrow> bool" where
  "isBlank sc \<longleftrightarrow> sc = []"

definition push :: "scope \<Rightarrow> frame \<Rightarrow> scope" where
  "push sc f = sc @ [f]"

record node =
  n_kind :: kind
  n_inputs :: "val list"
  n_outputs :: "ty list"
  n_blocks :: "bid list"
  n_scope :: scope
  n_name :: "string option"
  n_owning_block :: "bid option"

record block =
  b_nodes :: "nid list"
  b_param :: nid
  b_return :: nid
  b_owning_graph :: gid

record graph =
  g_block :: bid
  g_current_scope :: scope

record func =
  f_qualname :: qualified_name
  f_graph :: "gid option"

record ir =
  nodes :: "nid \<Rightarrow> node option"
  blocks :: "bid \<Rightarrow> block option"
  graphs :: "gid \<Rightarrow> graph option"
  funcs :: "fid \<Rightarrow> func option"
  next_node :: nat
  next_block :: nat

text \<open>
  What makes the source stop: a failed \<^verbatim>\<open>TORCH_INTERNAL_ASSERT\<close>/\<^verbatim>\<open>AT_ASSERT\<close>, an
  index out of range in \<^verbatim>\<open>input(i)\<close>, a read of an attribute the node does not have
  (\<^verbatim>\<open>s(attr::name)\<close>), a failed \<^verbatim>\<open>expect<T>()\<close>, a failed \<^verbatim>\<open>getMethod\<close>, and the use of a
  pointer to an object that no longer exists.
\<close>

datatype error =
    InternalAssert | IndexOutOfRange | AttributeMissing | TypeExpectFailed
  | MethodNotFound | DanglingReference

definition value_type :: "ir \<Rightarrow> val \<Rightarrow> ty option" where
  "value_type s v =
     (case nodes s (fst v) of
        None \<Rightarrow> None
      | Some nd \<Rightarrow> if snd v < length (n_outputs nd) then Some (n_outputs nd ! snd v) else None)"

subsection \<open>GetCallNodeVariableName\<close>

definition is_ModuleList :: "ty \<Rightarrow> bool" where
  "is_ModuleList t =
     (case t of
        ClassType (Some q) ms \<Rightarrow>
          qualifiedName q = ''__torch__.torch.nn.modules.container.ModuleList''
      | _ \<Rightarrow> False)"

text \<open>
  The \<^verbatim>\<open>while (parent_module_value)\<close> loop; \<open>None\<close> as the value is the null pointer.
  The loop has no bound of its own, so not returning is the result \<open>None\<close>.
\<close>

partial_function (option) walk_parents ::
  "ir \<Rightarrow> val option \<Rightarrow> string \<Rightarrow> (error + string) option" where
  "walk_parents s parent_module_value module_name =
     (case parent_module_value of
        None \<Rightarrow> Some (Inr module_name)
      | Some v \<Rightarrow>
          (case value_type s v of
             None \<Rightarrow> Some (Inl DanglingReference)
           | Some t \<Rightarrow>
               if is_ModuleList t then
                 (case nodes s (fst v) of
                    None \<Rightarrow> Some (Inl DanglingReference)
                  | Some parent_module_node \<Rightarrow>
                      (case n_name parent_module_node of
                         None \<Rightarrow> Some (Inl AttributeMissing)
                       | Some nm \<Rightarrow>
                           walk_parents s
                             (if length (n_inputs parent_module_node) > 0
                              then Some (n_inputs parent_module_node ! 0) else None)
                             (nm @ ''.'' @ module_name)))
               else Some (Inr module_name)))"

definition is_call_kind :: "kind \<Rightarrow> bool" where
  "is_call_kind k \<longleftrightarrow> k = prim_CallFunction \<or> k = prim_CallMethod"

definition GetCallNodeVariableName :: "ir \<Rightarrow> nid \<Rightarrow> (error + string) option" where
  "GetCallNodeVariableName s call_node =
     (case nodes s call_node of
        None \<Rightarrow> Some (Inl DanglingReference)
      | Some cn \<Rightarrow>
          if \<not> is_call_kind (n_kind cn) then Some (Inl InternalAssert)
          else
            (case n_inputs cn of
               [] \<Rightarrow> Some (Inl IndexOutOfRange)
             | v0 # _ \<Rightarrow>
                 (case nodes s (fst v0) of
                    None \<Rightarrow> Some (Inl DanglingReference)
                  | Some module_node \<Rightarrow>
                      (case n_name module_node of
                         None \<Rightarrow> Some (Inr [])
                       | Some module_name \<Rightarrow>
                           if length (n_inputs module_node) = 0 then Some (Inr module_name)
                           else walk_parents s (Some (n_inputs module_node ! 0)) module_name))))"


subsection \<open>Example graphs for the resolver\<close>

definition mk_node :: "kind \<Rightarrow> val list \<Rightarrow> ty list \<Rightarrow> string option \<Rightarrow> bid \<Rightarrow> node" where
  "mk_node k ins outs nm b =
     \<lparr>n_kind = k, n_inputs = ins, n_outputs = outs, n_blocks = [], n_scope = [],
      n_name = nm, n_owning_block = Some b\<rparr>"

definition ModuleList_ty :: ty where
  "ModuleList_ty =
     ClassType (Some [''__torch__'', ''torch'', ''nn'', ''modules'', ''container'', ''ModuleList'']) []"

definition Model_ty :: ty where
  "Model_ty = ClassType (Some [''__torch__'', ''Model'']) [(''forward'', 1)]"

definition Linear_ty :: ty where
  "Linear_ty = ClassType (Some [''__torch__'', ''pkg'', ''Linear'']) [(''forward'', 0)]"

text \<open>
  \<^verbatim>\<open>self.layers[3].forward(x)\<close>: node 1 reads the container \<open>layers\<close> from \<open>self\<close>, node 2
  reads its element \<open>3\<close>, node 3 calls \<open>forward\<close> on it. Function 0 is \<open>Linear.forward\<close>,
  with graph 1 (a single \<open>aten::relu\<close>).
\<close>

definition ex_layers :: ir where
  "ex_layers =
     \<lparr>nodes = map_of
        [(0, mk_node prim_Param [] [Model_ty, OtherType] None 0),
         (1, mk_node (other_kind ''prim::GetAttr'') [(0, 0)] [ModuleList_ty] (Some ''layers'') 0),
         (2, mk_node (other_kind ''prim::GetAttr'') [(1, 0)] [Linear_ty] (Some ''3'') 0),
         (3, mk_node prim_CallMethod [(2, 0), (0, 1)] [OtherType] (Some ''forward'') 0),
         (4, mk_node prim_Return [(3, 0)] [] None 0),
         (5, mk_node prim_Param [] [Linear_ty, OtherType] None 1),
         (6, mk_node (other_kind ''aten::relu'') [(5, 1)] [OtherType] None 1),
         (7, mk_node prim_Return [(6, 0)] [] None 1)],
      blocks = map_of
        [(0, \<lparr>b_nodes = [1, 2, 3], b_param = 0, b_return = 4, b_owning_graph = 0\<rparr>),
         (1, \<lparr>b_nodes = [6], b_param = 5, b_return = 7, b_owning_graph = 1\<rparr>)],
      graphs = map_of
        [(0, \<lparr>g_block = 0, g_current_scope = []\<rparr>),
         (1, \<lparr>g_block = 1, g_current_scope = []\<rparr>)],
      funcs = map_of
        [(0, \<lparr>f_qualname = [''__torch__'', ''pkg'', ''Linear'', ''forward''], f_graph = Some 1\<rparr>)],
      next_node = 8, next_block = 2\<rparr>"

text \<open>
  The same call, but the container is an input of the graph: its producer is the
  \<^verbatim>\<open>prim::Param\<close> node, which has no \<open>name\<close> attribute.
\<close>

definition ex_unnamed_container :: ir where
  "ex_unnamed_container =
     \<lparr>nodes = map_of
        [(0, mk_node prim_Param [] [ModuleList_ty, OtherType] None 0),
         (1, mk_node (other_kind ''prim::GetAttr'') [(0, 0)] [Linear_ty] (Some ''3'') 0),
         (2, mk_node prim_CallMethod [(1, 0), (0, 1)] [OtherType] (Some ''forward'') 0),
         (3, mk_node prim_Return [(2, 0)] [] None 0)],
      blocks = map_of
        [(0, \<lparr>b_nodes = [1, 2], b_param = 0, b_return = 3, b_owning_graph = 0\<rparr>)],
      graphs = map_of [(0, \<lparr>g_block = 0, g_current_scope = []\<rparr>)],
      funcs = map_of
        [(0, \<lparr>f_qualname = [''__torch__'', ''pkg'', ''Linear'', ''forward''], f_graph = None\<rparr>)],
      next_node = 4, next_block = 1\<rparr>"


text \<open>
  The specification's wording of the tidied name: the segments that are neither the
  reserved root marker nor carry the mangling marker, joined with dots.
\<close>

definition kept_segment :: "string \<Rightarrow> bool" where
  "kept_segment a \<longleftrightarrow> a \<noteq> ''__torch__'' \<and> str_find a ''__torch_mangle'' = None"

subsection \<open>IR services used by the pass\<close>

text \<open>
  Modelled from the spec: the IR data structures and their mutation primitives (section 6
  of the specification: create, insert, copy metadata, redirect uses, remove, destroy,
  the scope pointer of a graph) are not part of the source file. A run of the pass ends
  normally, or stops at an error with the heap as it is then (the scope guards of the
  source still run while the error unwinds), or does not return.
\<close>

datatype result = Done ir | Abort error ir | Diverge | OutOfFuel

definition current_scope :: "ir \<Rightarrow> gid \<Rightarrow> scope" where
  "current_scope s g = (case graphs s g of None \<Rightarrow> [] | Some gr \<Rightarrow> g_current_scope gr)"

definition set_current_scope :: "ir \<Rightarrow> gid \<Rightarrow> scope \<Rightarrow> ir" where
  "set_current_scope s g sc =
     s\<lparr>graphs := (graphs s)(g := map_option (\<lambda>gr. gr\<lparr>g_current_scope := sc\<rparr>) (graphs s g))\<rparr>"

text \<open>
  Modelled from the spec: the guard class \<^verbatim>\<open>WithCurrentScope\<close> is not part of the source
  file. It is the "scoped acquisition primitive" of section 4.3: built on a graph and a
  scope, it saves the graph's current scope and sets the new one; when the handling that
  holds it ends, "on every exit path (normal return, early return, or a nested
  failure/assert)", the saved scope is put back.
\<close>

definition WithCurrentScope_exit :: "gid \<Rightarrow> scope \<Rightarrow> result \<Rightarrow> result" where
  "WithCurrentScope_exit g prev_scope r =
     (case r of
        Done s \<Rightarrow> Done (set_current_scope s g prev_scope)
      | Abort e s \<Rightarrow> Abort e (set_current_scope s g prev_scope)
      | Diverge \<Rightarrow> Diverge
      | OutOfFuel \<Rightarrow> OutOfFuel)"

definition upd_node :: "ir \<Rightarrow> nid \<Rightarrow> (node \<Rightarrow> node) \<Rightarrow> ir" where
  "upd_node s n f = s\<lparr>nodes := (nodes s)(n := map_option f (nodes s n))\<rparr>"

definition removeInput :: "ir \<Rightarrow> nid \<Rightarrow> nat \<Rightarrow> ir" where
  "removeInput s n i =
     upd_node s n (\<lambda>nd. nd\<lparr>n_inputs := take i (n_inputs nd) @ drop (Suc i) (n_inputs nd)\<rparr>)"

definition removeAllInputs :: "ir \<Rightarrow> nid \<Rightarrow> ir" where
  "removeAllInputs s n = upd_node s n (\<lambda>nd. nd\<lparr>n_inputs := []\<rparr>)"

text \<open>
  A node has uses when some node of the heap has one of its outputs as an input (the use
  lists of the source hold exactly these). Every node of the heap has an identifier below
  \<open>next_node\<close>.
\<close>

definition hasUses :: "ir \<Rightarrow> nid \<Rightarrow> bool" where
  "hasUses s n =
     list_ex (\<lambda>m. case nodes s m of
                    None \<Rightarrow> False
                  | Some nd \<Rightarrow> list_ex (\<lambda>v. fst v = n) (n_inputs nd))
       [0..<next_node s]"

text \<open>
  Modelled from the spec: \<^verbatim>\<open>Node::destroy\<close> ("remove/destroy an instruction (only when
  unused)"). It asserts that no output is used, takes the node out of its block and frees
  it. The blocks a node owns go with it; the nodes the pass destroys (constants and
  calls) own none.
\<close>

definition erase_node :: "ir \<Rightarrow> nid \<Rightarrow> ir" where
  "erase_node s n =
     (case nodes s n of
        None \<Rightarrow> s
      | Some nd \<Rightarrow>
          s\<lparr>nodes := (nodes s)(n := None),
            blocks := (\<lambda>b. if n_owning_block nd = Some b
                           then map_option (\<lambda>blk. blk\<lparr>b_nodes := removeAll n (b_nodes blk)\<rparr>)
                                  (blocks s b)
                           else if b \<in> set (n_blocks nd) then None
                           else blocks s b)\<rparr>)"

definition destroy :: "ir \<Rightarrow> nid \<Rightarrow> result" where
  "destroy s n = (if hasUses s n then Abort InternalAssert s else Done (erase_node s n))"

text \<open>
  Modelled from the spec: \<^verbatim>\<open>Graph::create(kind, inputs, num_outputs)\<close> ("create
  instruction of a given operator kind with given inputs and output arity"): a fresh node,
  not yet in a block, with the graph's current scope.
\<close>

definition create :: "ir \<Rightarrow> gid \<Rightarrow> kind \<Rightarrow> val list \<Rightarrow> nat \<Rightarrow> nid \<times> ir" where
  "create s g k ins num_outputs =
     (next_node s,
      s\<lparr>nodes := (nodes s)(next_node s \<mapsto>
            \<lparr>n_kind = k, n_inputs = ins, n_outputs = replicate num_outputs OtherType,
             n_blocks = [], n_scope = current_scope s g, n_name = None,
             n_owning_block = None\<rparr>),
        next_node := Suc (next_node s)\<rparr>)"

fun insert_after :: "nid \<Rightarrow> nid \<Rightarrow> nid list \<Rightarrow> nid list" where
  "insert_after x y [] = []"
| "insert_after x y (a # as) = (if a = x then a # y # as else a # insert_after x y as)"

fun insert_before :: "nid \<Rightarrow> nid list \<Rightarrow> nid list \<Rightarrow> nid list" where
  "insert_before x ys [] = []"
| "insert_before x ys (a # as) = (if a = x then ys @ a # as else a # insert_before x ys as)"

text \<open>
  Modelled from the spec: \<^verbatim>\<open>new->insertAfter(n)\<close> ("insert relative to another
  instruction"); \<open>n\<close> must be in a block.
\<close>

definition insertAfter :: "ir \<Rightarrow> nid \<Rightarrow> nid \<Rightarrow> result" where
  "insertAfter s new n =
     (case nodes s n of
        None \<Rightarrow> Abort DanglingReference s
      | Some nd \<Rightarrow>
          (case n_owning_block nd of
             None \<Rightarrow> Abort InternalAssert s
           | Some b \<Rightarrow>
               (case blocks s b of
                  None \<Rightarrow> Abort DanglingReference s
                | Some blk \<Rightarrow>
                    if n \<notin> set (b_nodes blk) then Abort InternalAssert s
                    else Done
                      ((upd_node s new (\<lambda>x. x\<lparr>n_owning_block := Some b\<rparr>))
                         \<lparr>blocks := (blocks s)(b \<mapsto>
                             blk\<lparr>b_nodes := insert_after n new (b_nodes blk)\<rparr>)\<rparr>))))"

text \<open>
  Modelled from the spec: \<^verbatim>\<open>old->replaceAllUsesWith(new)\<close> ("redirect all uses of an
  instruction's outputs to another instruction's outputs"): every use of output \<open>i\<close> of
  \<open>old\<close> becomes a use of output \<open>i\<close> of \<open>new\<close>.
\<close>

definition relink :: "nid \<Rightarrow> nid \<Rightarrow> val \<Rightarrow> val" where
  "relink old new v = (if fst v = old then (new, snd v) else v)"

definition replaceAllUsesWith :: "ir \<Rightarrow> nid \<Rightarrow> nid \<Rightarrow> ir" where
  "replaceAllUsesWith s old new =
     s\<lparr>nodes := (\<lambda>m. map_option
         (\<lambda>nd. nd\<lparr>n_inputs := map (relink old new) (n_inputs nd)\<rparr>)
         (nodes s m))\<rparr>"

subsection \<open>Inlining a call\<close>

text \<open>The nodes of a graph: those whose owning block belongs to it.\<close>

definition in_graph :: "ir \<Rightarrow> gid \<Rightarrow> nid \<Rightarrow> bool" where
  "in_graph s g n =
     (case nodes s n of
        None \<Rightarrow> False
      | Some nd \<Rightarrow>
          (case n_owning_block nd of
             None \<Rightarrow> False
           | Some b \<Rightarrow> (case blocks s b of None \<Rightarrow> False | Some blk \<Rightarrow> b_owning_graph blk = g)))"

text \<open>
  Modelled from the spec: \<^verbatim>\<open>inlineCallTo\<close> is not part of the source file. The
  specification: "splice (inline) the callee's body at \<open>cur\<close>'s position, replacing
  \<open>cur\<close>'s outputs with the callee's returned values and removing \<open>cur\<close> from the block".
  The body is copied: every node and block of the callee's graph gets a fresh identifier
  (its own plus the number of identifiers in use), the callee's parameters stand for the
  inputs of the call, a copy keeps the scope of its original unless that is blank, and
  the copies of the body's top-level nodes are put in front of the call. The call's
  inputs must match the callee's parameters and its outputs the callee's returns.
\<close>

definition inline_value :: "ir \<Rightarrow> gid \<Rightarrow> nid \<Rightarrow> val list \<Rightarrow> val \<Rightarrow> val" where
  "inline_value s callee param ins v =
     (if fst v = param then (if snd v < length ins then ins ! snd v else v)
      else if in_graph s callee (fst v) then (fst v + next_node s, snd v)
      else v)"

text \<open>Modelled from the spec: the copy of a node of the body (part of \<^verbatim>\<open>inlineCallTo\<close>).\<close>

definition inline_copy_node ::
  "ir \<Rightarrow> gid \<Rightarrow> bid \<Rightarrow> nid \<Rightarrow> val list \<Rightarrow> gid \<Rightarrow> bid \<Rightarrow> node \<Rightarrow> node" where
  "inline_copy_node s callee cb param ins tg tb nd =
     nd\<lparr>n_inputs := map (inline_value s callee param ins) (n_inputs nd),
        n_blocks := map (\<lambda>b. b + next_block s) (n_blocks nd),
        n_scope := (if isBlank (n_scope nd) then current_scope s tg else n_scope nd),
        n_owning_block :=
          (case n_owning_block nd of
             None \<Rightarrow> None
           | Some b \<Rightarrow> if b = cb then Some tb else Some (b + next_block s))\<rparr>"

text \<open>Modelled from the spec: the copy of a nested block of the body.\<close>

definition inline_copy_block :: "ir \<Rightarrow> gid \<Rightarrow> block \<Rightarrow> block" where
  "inline_copy_block s tg blk =
     \<lparr>b_nodes = map (\<lambda>n. n + next_node s) (b_nodes blk),
      b_param = b_param blk + next_node s,
      b_return = b_return blk + next_node s,
      b_owning_graph = tg\<rparr>"

text \<open>Modelled from the spec: the heap with the body copied in front of the call.\<close>

definition insertGraph :: "ir \<Rightarrow> nid \<Rightarrow> node \<Rightarrow> bid \<Rightarrow> block \<Rightarrow> gid \<Rightarrow> bid \<Rightarrow> block \<Rightarrow> ir" where
  "insertGraph s to_replace call tb tblk callee cb cblk =
     s\<lparr>nodes := (\<lambda>m.
          if next_node s \<le> m \<and> m < next_node s + next_node s
             \<and> in_graph s callee (m - next_node s)
             \<and> m - next_node s \<noteq> b_param cblk \<and> m - next_node s \<noteq> b_return cblk
          then map_option
                 (inline_copy_node s callee cb (b_param cblk) (n_inputs call)
                    (b_owning_graph tblk) tb)
                 (nodes s (m - next_node s))
          else nodes s m),
       blocks := (\<lambda>b.
          if b = tb
          then Some (tblk\<lparr>b_nodes :=
                 insert_before to_replace (map (\<lambda>n. n + next_node s) (b_nodes cblk))
                   (b_nodes tblk)\<rparr>)
          else if next_block s \<le> b \<and> b < next_block s + next_block s
                  \<and> b - next_block s \<noteq> cb
          then (case blocks s (b - next_block s) of
                  None \<Rightarrow> None
                | Some blk \<Rightarrow>
                    if b_owning_graph blk = callee
                    then Some (inline_copy_block s (b_owning_graph tblk) blk) else None)
          else blocks s b),
       next_node := next_node s + next_node s,
       next_block := next_block s + next_block s\<rparr>"

text \<open>How inlining redirects a use of an output of the call to a returned value.\<close>

definition redirect :: "nid \<Rightarrow> val list \<Rightarrow> val \<Rightarrow> val" where
  "redirect old new_outputs v =
     (if fst v = old \<and> snd v < length new_outputs then new_outputs ! snd v else v)"

definition replace_outputs :: "ir \<Rightarrow> nid \<Rightarrow> val list \<Rightarrow> ir" where
  "replace_outputs s old new_outputs =
     s\<lparr>nodes := (\<lambda>m. map_option
         (\<lambda>nd. nd\<lparr>n_inputs := map (redirect old new_outputs) (n_inputs nd)\<rparr>)
         (nodes s m))\<rparr>"

text \<open>
  Modelled from the spec: \<^verbatim>\<open>inlineCallTo(to_replace, callee, false)\<close>: copy the body,
  replace the outputs of the call by the returned values, destroy the call.
\<close>

definition inlineCallTo :: "ir \<Rightarrow> nid \<Rightarrow> gid \<Rightarrow> result" where
  "inlineCallTo s to_replace callee =
     (case nodes s to_replace of
        None \<Rightarrow> Abort DanglingReference s
      | Some call \<Rightarrow>
     (case n_owning_block call of
        None \<Rightarrow> Abort InternalAssert s
      | Some tb \<Rightarrow>
     (case blocks s tb of
        None \<Rightarrow> Abort DanglingReference s
      | Some tblk \<Rightarrow>
     (case graphs s callee of
        None \<Rightarrow> Abort DanglingReference s
      | Some cgr \<Rightarrow>
     (case blocks s (g_block cgr) of
        None \<Rightarrow> Abort DanglingReference s
      | Some cblk \<Rightarrow>
     (case nodes s (b_param cblk) of
        None \<Rightarrow> Abort DanglingReference s
      | Some pnode \<Rightarrow>
     (case nodes s (b_return cblk) of
        None \<Rightarrow> Abort DanglingReference s
      | Some rnode \<Rightarrow>
          if length (n_inputs call) \<noteq> length (n_outputs pnode) then Abort InternalAssert s
          else
            let s1 = insertGraph s to_replace call tb tblk callee (g_block cgr) cblk;
                new_outputs =
                  map (inline_value s callee (b_param cblk) (n_inputs call)) (n_inputs rnode)
            in if length new_outputs \<noteq> length (n_outputs call) then Abort InternalAssert s1
               else destroy (replace_outputs s1 to_replace new_outputs) to_replace)))))))"

declare walk_parents.simps [code]

subsection \<open>SetScopeGuardForCall\<close>

definition named_type_name :: "ir \<Rightarrow> ty \<Rightarrow> error + qualified_name option" where
  "named_type_name s t =
     (case t of
        ClassType q ms \<Rightarrow> Inr q
      | FunctionType f \<Rightarrow>
          (case funcs s f of None \<Rightarrow> Inl DanglingReference | Some fn \<Rightarrow> Inr (Some (f_qualname fn)))
      | NamedOtherType q \<Rightarrow> Inr q
      | OtherType \<Rightarrow> Inl TypeExpectFailed)"

text \<open>
  The scope the guard installs: the graph's current scope with the frame of the call
  pushed. \<open>None\<close>: the variable resolver does not return.
\<close>

definition call_scope :: "ir \<Rightarrow> gid \<Rightarrow> nid \<Rightarrow> (error + scope) option" where
  "call_scope s g call_node =
     (case nodes s call_node of
        None \<Rightarrow> Some (Inl DanglingReference)
      | Some cn \<Rightarrow>
          if \<not> is_call_kind (n_kind cn) then Some (Inl InternalAssert)
          else
            (case n_inputs cn of
               [] \<Rightarrow> Some (Inl IndexOutOfRange)
             | v0 # _ \<Rightarrow>
                 (case value_type s v0 of
                    None \<Rightarrow> Some (Inl DanglingReference)
                  | Some t \<Rightarrow>
                      (case named_type_name s t of
                         Inl e \<Rightarrow> Some (Inl e)
                       | Inr type_name \<Rightarrow>
                           (let class_name = TidyClassNameFromTorchScript type_name
                            in case GetCallNodeVariableName s call_node of
                                 None \<Rightarrow> None
                               | Some (Inl e) \<Rightarrow> Some (Inl e)
                               | Some (Inr variable_name) \<Rightarrow>
                                   Some (Inr (push (current_scope s g)
                                     (createFullScopeName class_name variable_name))))))))"

subsection \<open>functionCallSubstitution\<close>

text \<open>The callee of a \<^verbatim>\<open>prim::CallFunction\<close>: the constant at input 0 and its function.\<close>

definition function_constant :: "ir \<Rightarrow> node \<Rightarrow> error + (nid \<times> func)" where
  "function_constant s cur_node =
     (case n_inputs cur_node of
        [] \<Rightarrow> Inl IndexOutOfRange
      | v0 # _ \<Rightarrow>
          (case nodes s (fst v0) of
             None \<Rightarrow> Inl DanglingReference
           | Some cnd \<Rightarrow>
               if n_kind cnd \<noteq> prim_Constant then Inl InternalAssert
               else if length (n_outputs cnd) \<noteq> 1 then Inl InternalAssert
               else
                 (case n_outputs cnd ! 0 of
                    FunctionType f \<Rightarrow>
                      (case funcs s f of
                         None \<Rightarrow> Inl DanglingReference
                       | Some fn \<Rightarrow> Inr (fst v0, fn))
                  | _ \<Rightarrow> Inl TypeExpectFailed)))"

definition is_interpolate :: "func \<Rightarrow> bool" where
  "is_interpolate fn \<longleftrightarrow>
     str_find (qualifiedName (f_qualname fn)) ''torch.nn.functional'' \<noteq> None
     \<and> str_find (qualifiedName (f_qualname fn)) ''interpolate'' \<noteq> None"

text \<open>"Remove input[0] and the node that feeds into it".\<close>

definition remove_input0 :: "ir \<Rightarrow> nid \<Rightarrow> nid \<Rightarrow> result" where
  "remove_input0 s cur input_node_0 =
     (let s1 = removeInput s cur 0
      in if \<not> hasUses s1 input_node_0 then destroy s1 input_node_0 else Done s1)"

text \<open>
  The rest of the interpolate branch: create the new node, copy the metadata of the
  output (\<^verbatim>\<open>output()\<close> asserts a single output) and of the node, insert, redirect the
  uses, destroy \<open>cur\<close>.
\<close>

definition substitute_interpolate :: "ir \<Rightarrow> gid \<Rightarrow> nid \<Rightarrow> nid \<Rightarrow> result" where
  "substitute_interpolate s g cur input_node_0 =
     (case remove_input0 s cur input_node_0 of
        Done s2 \<Rightarrow>
          (case nodes s2 cur of
             None \<Rightarrow> Abort DanglingReference s2
           | Some nd \<Rightarrow>
               (let (interpolate_node, s3) =
                      create s2 g aten_interpolate (n_inputs nd) (length (n_outputs nd))
                in if length (n_outputs nd) \<noteq> 1 then Abort InternalAssert s3
                   else
                     (case insertAfter
                             (upd_node s3 interpolate_node
                                (\<lambda>x. x\<lparr>n_outputs := [n_outputs nd ! 0]\<rparr>))
                             interpolate_node cur of
                        Done s5 \<Rightarrow>
                          destroy
                            (removeAllInputs
                               (replaceAllUsesWith
                                  (upd_node s5 interpolate_node (\<lambda>x. x\<lparr>n_scope := n_scope nd\<rparr>))
                                  cur interpolate_node)
                               cur)
                            cur
                      | r \<Rightarrow> r)))
      | r \<Rightarrow> r)"

text \<open>
  Modelled from the spec: \<^verbatim>\<open>ClassType::getMethod\<close> is not part of the source file. It is
  the "by-method-name lookup on a class type"; the source binds its result to a reference,
  so a class without a method of that name makes the lookup fail.
\<close>

definition getMethod :: "(string \<times> fid) list \<Rightarrow> string \<Rightarrow> error + fid" where
  "getMethod methods name =
     (case map_of methods name of None \<Rightarrow> Inl MethodNotFound | Some f \<Rightarrow> Inr f)"

text \<open>
  The head of the \<^verbatim>\<open>prim::CallMethod\<close> case, up to the construction of the scope
  guard: the \<open>name\<close> attribute of the call, the cast of the receiver's type to a class
  type, \<^verbatim>\<open>getMethod\<close>, and the scope \<^verbatim>\<open>SetScopeGuardForCall\<close> builds. The outcome is
  \<open>None\<close> when the resolver does not return, an error, \<open>Inr None\<close> when the receiver's
  type is not a class type, or the scope of the call and the method.
\<close>

definition method_target ::
  "ir \<Rightarrow> gid \<Rightarrow> nid \<Rightarrow> node \<Rightarrow> (error + (scope \<times> func) option) option" where
  "method_target s graph cur nd =
     (case n_name nd of
        None \<Rightarrow> Some (Inl AttributeMissing)
      | Some name \<Rightarrow>
          (case n_inputs nd of
             [] \<Rightarrow> Some (Inl IndexOutOfRange)
           | v0 # _ \<Rightarrow>
               (case value_type s v0 of
                  None \<Rightarrow> Some (Inl DanglingReference)
                | Some (ClassType cname methods) \<Rightarrow>
                    (case getMethod methods name of
                       Inl e \<Rightarrow> Some (Inl e)
                     | Inr f \<Rightarrow>
                         (case funcs s f of
                            None \<Rightarrow> Some (Inl DanglingReference)
                          | Some fn \<Rightarrow>
                              (case call_scope s graph cur of
                                 None \<Rightarrow> None
                               | Some (Inl e) \<Rightarrow> Some (Inl e)
                               | Some (Inr sc) \<Rightarrow> Some (Inr (Some (sc, fn))))))
                | Some _ \<Rightarrow> Some (Inr None))))"

definition and_then :: "result \<Rightarrow> (ir \<Rightarrow> result) \<Rightarrow> result" where
  "and_then r f = (case r of Done s \<Rightarrow> f s | _ \<Rightarrow> r)"

text \<open>
  The pass. The \<^verbatim>\<open>for\<close> loop takes the next node before it changes the current one, and
  what the body inserts comes before that next node: the loop visits the nodes the block
  had when the loop started. The recursion follows the call graph, which the source does
  not bound: the fuel bounds the depth of the recursion through blocks. The logging
  macros (\<^verbatim>\<open>GRAPH_UPDATE\<close>, \<^verbatim>\<open>GRAPH_DUMP\<close>) are left out.
\<close>

function (sequential) functionCallSubstitution :: "nat \<Rightarrow> ir \<Rightarrow> bid \<Rightarrow> result"
  and fcs_nodes :: "nat \<Rightarrow> ir \<Rightarrow> gid \<Rightarrow> nid list \<Rightarrow> result"
  and fcs_node :: "nat \<Rightarrow> ir \<Rightarrow> gid \<Rightarrow> nid \<Rightarrow> result"
  and fcs_blocks :: "nat \<Rightarrow> ir \<Rightarrow> bid list \<Rightarrow> result"
where
  "functionCallSubstitution 0 s block = OutOfFuel"
| "functionCallSubstitution (Suc fuel) s block =
     (case blocks s block of
        None \<Rightarrow> Abort DanglingReference s
      | Some blk \<Rightarrow> fcs_nodes fuel s (b_owning_graph blk) (b_nodes blk))"
| "fcs_nodes fuel s graph [] = Done s"
| "fcs_nodes fuel s graph (cur # rest) =
     (case fcs_node fuel s graph cur of
        Done s' \<Rightarrow> fcs_nodes fuel s' graph rest
      | r \<Rightarrow> r)"
| "fcs_node fuel s graph cur =
     (case nodes s cur of
        None \<Rightarrow> Abort DanglingReference s
      | Some nd \<Rightarrow>
          if n_kind nd = prim_CallFunction then
            (case function_constant s nd of
               Inl e \<Rightarrow> Abort e s
             | Inr (input_node_0, fn) \<Rightarrow>
                 if is_interpolate fn then substitute_interpolate s graph cur input_node_0
                 else
                   (case remove_input0 s cur input_node_0 of
                      Done s2 \<Rightarrow>
                        (case f_graph fn of
                           None \<Rightarrow> Abort InternalAssert s2
                         | Some callee \<Rightarrow>
                             (case graphs s2 callee of
                                None \<Rightarrow> Abort DanglingReference s2
                              | Some cgr \<Rightarrow>
                                  and_then (functionCallSubstitution fuel s2 (g_block cgr))
                                    (\<lambda>s3. inlineCallTo s3 cur callee)))
                    | r \<Rightarrow> r))
          else if n_kind nd = prim_CallMethod then
            (case method_target s graph cur nd of
               None \<Rightarrow> Diverge
             | Some (Inl e) \<Rightarrow> Abort e s
             | Some (Inr None) \<Rightarrow> Done s
             | Some (Inr (Some (sc, fn))) \<Rightarrow>
                 WithCurrentScope_exit graph (current_scope s graph)
                   (case f_graph fn of
                      None \<Rightarrow> Done (set_current_scope s graph sc)
                    | Some callee \<Rightarrow>
                        WithCurrentScope_exit callee
                          (current_scope (set_current_scope s graph sc) callee)
                          (case graphs s callee of
                             None \<Rightarrow>
                               Abort DanglingReference
                                 (set_current_scope (set_current_scope s graph sc) callee sc)
                           | Some cgr \<Rightarrow>
                               and_then
                                 (functionCallSubstitution fuel
                                    (set_current_scope (set_current_scope s graph sc) callee sc)
                                    (g_block cgr))
                                 (\<lambda>s3. inlineCallTo s3 cur callee))))
          else
            fcs_blocks fuel
              (if \<not> isBlank (current_scope s graph)
               then upd_node s cur (\<lambda>x. x\<lparr>n_scope := current_scope s graph\<rparr>) else s)
              (n_blocks nd))"
| "fcs_blocks fuel s [] = Done s"
| "fcs_blocks fuel s (b # bs) =
     (case functionCallSubstitution fuel s b of
        Done s' \<Rightarrow> fcs_blocks fuel s' bs
      | r \<Rightarrow> r)"
  by pat_completeness auto

termination
  by (relation "inv_image (less_than <*lex*> less_than <*lex*> less_than)
        (\<lambda>x. case x of
           Inl (Inl (fuel, s, b)) \<Rightarrow> (fuel, 0, 0)
         | Inl (Inr (fuel, s, g, ns)) \<Rightarrow> (fuel, 3, length ns)
         | Inr (Inl (fuel, s, g, n)) \<Rightarrow> (fuel, 2, 0)
         | Inr (Inr (fuel, s, bs)) \<Rightarrow> (fuel, 1, length bs))") auto

subsection \<open>ONNXGraphTopLevelScopeGuard and ONNXFunctionCallSubstitution\<close>

text \<open>The scope the top-level guard installs; the inputs of a graph are the outputs of
  the parameter node of its block.\<close>

definition top_level_scope :: "ir \<Rightarrow> gid \<Rightarrow> scope" where
  "top_level_scope s g =
     (case graphs s g of
        None \<Rightarrow> current_scope s g
      | Some gr \<Rightarrow>
          (case blocks s (g_block gr) of
             None \<Rightarrow> current_scope s g
           | Some blk \<Rightarrow>
               (case nodes s (b_param blk) of
                  None \<Rightarrow> current_scope s g
                | Some pnode \<Rightarrow>
                    (case n_outputs pnode of
                       [] \<Rightarrow> current_scope s g
                     | ClassType q ms # _ \<Rightarrow>
                         push (current_scope s g)
                           (createFullScopeName (TidyClassNameFromTorchScript q) [])
                     | _ # _ \<Rightarrow> current_scope s g))))"

definition ONNXFunctionCallSubstitution :: "nat \<Rightarrow> ir \<Rightarrow> gid \<Rightarrow> result" where
  "ONNXFunctionCallSubstitution fuel s g =
     (case graphs s g of
        None \<Rightarrow> Abort DanglingReference s
      | Some gr \<Rightarrow>
          WithCurrentScope_exit g (current_scope s g)
            (functionCallSubstitution fuel (set_current_scope s g (top_level_scope s g))
               (g_block gr)))"

declare fcs_node.simps [simp del]

subsection \<open>Example graphs for the pass\<close>

text \<open>\<open>ex_layers\<close> with a method that has no graph (a builtin function).\<close>

definition ex_opaque :: ir where
  "ex_opaque =
     ex_layers\<lparr>funcs := map_of
       [(0, \<lparr>f_qualname = [''__torch__'', ''pkg'', ''Linear'', ''forward''], f_graph = None\<rparr>)]\<rparr>"

text \<open>\<open>ex_layers\<close> with a receiver whose static type is not a class type.\<close>

definition ex_tensor_receiver :: ir where
  "ex_tensor_receiver = upd_node ex_layers 2 (\<lambda>x. x\<lparr>n_outputs := [OtherType]\<rparr>)"

text \<open>\<open>ex_layers\<close> with a call of a method the class does not define.\<close>

definition ex_missing_method :: ir where
  "ex_missing_method = upd_node ex_layers 3 (\<lambda>x. x\<lparr>n_name := Some ''backward''\<rparr>)"

text \<open>What a run leaves of a node and of a graph's scope.\<close>

definition node_after :: "result \<Rightarrow> nid \<Rightarrow> node option" where
  "node_after r n = (case r of Done s \<Rightarrow> nodes s n | Abort e s \<Rightarrow> nodes s n | _ \<Rightarrow> None)"

definition scope_after :: "result \<Rightarrow> gid \<Rightarrow> scope option" where
  "scope_after r g =
     (case r of
        Done s \<Rightarrow> Some (current_scope s g)
      | Abort e s \<Rightarrow> Some (current_scope s g)
      | _ \<Rightarrow> None)"

definition is_Done :: "result \<Rightarrow> bool" where
  "is_Done r = (case r of Done s \<Rightarrow> True | _ \<Rightarrow> False)"

text \<open>A run keeps the graphs (their blocks and current scopes) as a given table says.\<close>

definition keeps_graphs :: "(gid \<Rightarrow> graph option) \<Rightarrow> result \<Rightarrow> bool" where
  "keeps_graphs G r =
     (case r of Done s \<Rightarrow> graphs s = G | Abort e s \<Rightarrow> graphs s = G | _ \<Rightarrow> True)"

text \<open>
  \<open>ex_layers\<close> with a callee body that fails: node 6 is a function call whose input 0 is
  not produced by a constant.
\<close>

definition ex_nested_failure :: ir where
  "ex_nested_failure =
     upd_node ex_layers 6 (\<lambda>x. x\<lparr>n_kind := prim_CallFunction, n_inputs := [(5, 1)]\<rparr>)"

text \<open>
  A call of the function \<open>helper\<close> (function 0, graph 1, a single \<open>aten::relu\<close>) in the
  \<open>forward\<close> of a module; node 1 is the constant that carries the function.
\<close>

definition ex_function :: ir where
  "ex_function =
     \<lparr>nodes = map_of
        [(0, mk_node prim_Param [] [Model_ty, OtherType] None 0),
         (1, mk_node prim_Constant [] [FunctionType 0] (Some ''helper'') 0),
         (2, mk_node prim_CallFunction [(1, 0), (0, 1)] [OtherType] None 0),
         (3, mk_node prim_Return [(2, 0)] [] None 0),
         (4, mk_node prim_Param [] [OtherType] None 1),
         (5, mk_node (other_kind ''aten::relu'') [(4, 0)] [OtherType] None 1),
         (6, mk_node prim_Return [(5, 0)] [] None 1)],
      blocks = map_of
        [(0, \<lparr>b_nodes = [1, 2], b_param = 0, b_return = 3, b_owning_graph = 0\<rparr>),
         (1, \<lparr>b_nodes = [5], b_param = 4, b_return = 6, b_owning_graph = 1\<rparr>)],
      graphs = map_of
        [(0, \<lparr>g_block = 0, g_current_scope = []\<rparr>),
         (1, \<lparr>g_block = 1, g_current_scope = []\<rparr>)],
      funcs = map_of [(0, \<lparr>f_qualname = [''__torch__'', ''helper''], f_graph = Some 1\<rparr>)],
      next_node = 7, next_block = 2\<rparr>"

text \<open>The same graph with \<open>torch.nn.functional.interpolate\<close> as the function.\<close>

definition ex_interpolate :: ir where
  "ex_interpolate =
     ex_function\<lparr>funcs := map_of
       [(0, \<lparr>f_qualname = [''__torch__'', ''torch'', ''nn'', ''functional'', ''interpolate''],
             f_graph = Some 1\<rparr>)]\<rparr>"

text \<open>An ordinary node: not a call, and without blocks of its own.\<close>

definition plain_node :: "ir \<Rightarrow> nid \<Rightarrow> bool" where
  "plain_node s n =
     (case nodes s n of
        None \<Rightarrow> False
      | Some nd \<Rightarrow>
          n_kind nd \<noteq> prim_CallFunction \<and> n_kind nd \<noteq> prim_CallMethod \<and> n_blocks nd = [])"

definition stamp :: "ir \<Rightarrow> nid list \<Rightarrow> scope \<Rightarrow> ir" where
  "stamp s ns sc =
     s\<lparr>nodes := (\<lambda>m. if m \<in> set ns then map_option (\<lambda>x. x\<lparr>n_scope := sc\<rparr>) (nodes s m)
                     else nodes s m)\<rparr>"

text \<open>The allocator's invariant: every node of the heap has an identifier below \<open>next_node\<close>.\<close>

definition wf_alloc :: "ir \<Rightarrow> bool" where
  "wf_alloc s \<longleftrightarrow> (\<forall>n. nodes s n \<noteq> None \<longrightarrow> n < next_node s)"



definition wf_after :: "result \<Rightarrow> bool" where
  "wf_after r = (case r of Done s \<Rightarrow> wf_alloc s | Abort e s \<Rightarrow> wf_alloc s | _ \<Rightarrow> True)"

subsection \<open>The chain of the resolver's walk\<close>





subsection \<open>What a run keeps of the nodes it starts with\<close>

text \<open>
  \<open>extends s s'\<close>: identifiers are only added, and a node of \<open>s\<close> is in \<open>s'\<close> either gone or
  of the kind it had.
\<close>

definition extends :: "ir \<Rightarrow> ir \<Rightarrow> bool" where
  "extends s s' \<longleftrightarrow>
     next_node s \<le> next_node s'
     \<and> (\<forall>m x'. m < next_node s \<and> nodes s' m = Some x' \<longrightarrow>
           (\<exists>x. nodes s m = Some x \<and> n_kind x = n_kind x'))"

definition extends_after :: "ir \<Rightarrow> result \<Rightarrow> bool" where
  "extends_after s r =
     (case r of Done s' \<Rightarrow> extends s s' | Abort e s' \<Rightarrow> extends s s' | _ \<Rightarrow> True)"

text \<open>
  \<open>self.layers[3].forward(x)\<close> where \<open>Linear.forward\<close> (function 0, graph 1) calls the
  function \<open>helper\<close> (function 1, graph 2, a single \<open>aten::relu\<close>).
\<close>

definition ex_nested :: ir where
  "ex_nested =
     \<lparr>nodes = map_of
        [(0, mk_node prim_Param [] [Model_ty, OtherType] None 0),
         (1, mk_node (other_kind ''prim::GetAttr'') [(0, 0)] [ModuleList_ty] (Some ''layers'') 0),
         (2, mk_node (other_kind ''prim::GetAttr'') [(1, 0)] [Linear_ty] (Some ''3'') 0),
         (3, mk_node prim_CallMethod [(2, 0), (0, 1)] [OtherType] (Some ''forward'') 0),
         (4, mk_node prim_Return [(3, 0)] [] None 0),
         (5, mk_node prim_Param [] [Linear_ty, OtherType] None 1),
         (6, mk_node prim_Constant [] [FunctionType 1] (Some ''helper'') 1),
         (7, mk_node prim_CallFunction [(6, 0), (5, 1)] [OtherType] None 1),
         (8, mk_node prim_Return [(7, 0)] [] None 1),
         (9, mk_node prim_Param [] [OtherType] None 2),
         (10, mk_node (other_kind ''aten::relu'') [(9, 0)] [OtherType] None 2),
         (11, mk_node prim_Return [(10, 0)] [] None 2)],
      blocks = map_of
        [(0, \<lparr>b_nodes = [1, 2, 3], b_param = 0, b_return = 4, b_owning_graph = 0\<rparr>),
         (1, \<lparr>b_nodes = [6, 7], b_param = 5, b_return = 8, b_owning_graph = 1\<rparr>),
         (2, \<lparr>b_nodes = [10], b_param = 9, b_return = 11, b_owning_graph = 2\<rparr>)],
      graphs = map_of
        [(0, \<lparr>g_block = 0, g_current_scope = []\<rparr>),
         (1, \<lparr>g_block = 1, g_current_scope = []\<rparr>),
         (2, \<lparr>g_block = 2, g_current_scope = []\<rparr>)],
      funcs = map_of
        [(0, \<lparr>f_qualname = [''__torch__'', ''pkg'', ''Linear'', ''forward''], f_graph = Some 1\<rparr>),
         (1, \<lparr>f_qualname = [''__torch__'', ''helper''], f_graph = Some 2\<rparr>)],
      next_node = 12, next_block = 3\<rparr>"

section \<open>Qualified-name tidying\<close>

lemma join_dot_Cons:
  "join_dot (a # as) = (if as = [] then a else a @ ''.'' @ join_dot as)"
  by (cases as) simp_all

lemma tidy_loop_step:
  "tidy_loop out (atom # atoms) =
     (if kept_segment atom
      then tidy_loop ((if out \<noteq> [] then out @ ''.'' else out) @ atom) atoms
      else tidy_loop out atoms)"
  by (simp add: kept_segment_def)

lemma tidy_loop_join:
  assumes "\<forall>a\<in>set atoms. a \<noteq> []"
  shows "tidy_loop out atoms =
    (if filter kept_segment atoms = [] then out
     else if out = [] then join_dot (filter kept_segment atoms)
     else out @ ''.'' @ join_dot (filter kept_segment atoms))"
  using assms
proof (induction atoms arbitrary: out)
  case Nil
  show ?case by simp
next
  case (Cons a atoms)
  then have ne: "a \<noteq> []" and rest: "\<forall>a\<in>set atoms. a \<noteq> []"
    by simp_all
  show ?case
  proof (cases "kept_segment a")
    case True
    then show ?thesis
      using ne by (simp only: tidy_loop_step Cons.IH [OF rest]) (simp add: join_dot_Cons)
  next
    case False
    then show ?thesis
      by (simp only: tidy_loop_step Cons.IH [OF rest]) simp
  qed
qed

text \<open>
  C6 (as amended). Tidying an absent name gives \<open>UNKNOWN_CLASS\<close>; tidying a name (whose
  atoms are non-empty, as \<^verbatim>\<open>QualifiedName\<close> keeps them) gives the dot-join of exactly
  the segments that are neither \<open>__torch__\<close> nor contain \<open>__torch_mangle\<close>, in their
  order. So \<open>__torch__.pkg.M\<close> tidies to \<open>pkg.M\<close>, the segment \<open>M__torch_mangle_3\<close> is
  dropped whole (that name tidies to \<open>pkg\<close>), a name whose mangling marker is a segment
  of its own tidies to \<open>pkg.M\<close>, and a name without reserved or mangled segments tidies
  to its dot-join.
\<close>

theorem tidy_class_name_correct:
  "TidyClassNameFromTorchScript None = ''UNKNOWN_CLASS''
   \<and> ((\<forall>a\<in>set q. a \<noteq> []) \<longrightarrow>
        TidyClassNameFromTorchScript (Some q) = join_dot (filter kept_segment q))
   \<and> TidyClassNameFromTorchScript (Some [''__torch__'', ''pkg'', ''M'']) = ''pkg.M''
   \<and> TidyClassNameFromTorchScript (Some [''__torch__'', ''pkg'', ''M__torch_mangle_3''])
       = ''pkg''
   \<and> TidyClassNameFromTorchScript
        (Some [''__torch__'', ''pkg'', ''___torch_mangle_3'', ''M'']) = ''pkg.M''
   \<and> ((\<forall>a\<in>set q. a \<noteq> [] \<and> kept_segment a) \<longrightarrow>
        TidyClassNameFromTorchScript (Some q) = join_dot q)"
proof (intro conjI impI)
  show "TidyClassNameFromTorchScript None = ''UNKNOWN_CLASS''" by simp
next
  assume "\<forall>a\<in>set q. a \<noteq> []"
  then show "TidyClassNameFromTorchScript (Some q) = join_dot (filter kept_segment q)"
    by (simp add: tidy_loop_join)
next
  show "TidyClassNameFromTorchScript (Some [''__torch__'', ''pkg'', ''M'']) = ''pkg.M''"
    by simp
next
  show "TidyClassNameFromTorchScript (Some [''__torch__'', ''pkg'', ''M__torch_mangle_3''])
       = ''pkg''"
    by simp
next
  show "TidyClassNameFromTorchScript
        (Some [''__torch__'', ''pkg'', ''___torch_mangle_3'', ''M'']) = ''pkg.M''"
    by simp
next
  assume a: "\<forall>a\<in>set q. a \<noteq> [] \<and> kept_segment a"
  then have "filter kept_segment q = q" by (simp add: filter_id_conv)
  with a show "TidyClassNameFromTorchScript (Some q) = join_dot q"
    by (simp add: tidy_loop_join)
qed

theorem tidy_class_name_correct_witness:
  "''pkg'' \<noteq> [] \<and> ''M'' \<noteq> [] \<and> kept_segment ''pkg'' \<and> kept_segment ''M''
   \<and> TidyClassNameFromTorchScript (Some [''pkg'', ''M'']) = join_dot [''pkg'', ''M'']
   \<and> TidyClassNameFromTorchScript (Some [''pkg'', ''M''])
       = join_dot (filter kept_segment [''pkg'', ''M''])"
  using tidy_class_name_correct [of "[''pkg'', ''M'']"]
  by (simp add: kept_segment_def)

theorem tidy_mangled_segment_counterexample:
  "TidyClassNameFromTorchScript (Some [''__torch__'', ''pkg'', ''M__torch_mangle_3''])
     \<noteq> ''pkg.M''"
  by simp

section \<open>Call-site variable resolver\<close>

lemmas ex_defs = mk_node_def is_call_kind_def value_type_def is_ModuleList_def
  ModuleList_ty_def Linear_ty_def Model_ty_def qualifiedName_def

lemma walk_None: "walk_parents s None acc = Some (Inr acc)"
  by (subst walk_parents.simps) simp




text \<open>
  C5. The resolver returns the empty string when the producer of the call's first input
  has no \<open>name\<close> attribute, and that producer's name when the producer has no inputs.
  Otherwise it walks backward from the producer's first input: at null it stops; at a
  value whose static type is not the \<open>ModuleList\<close> class type it stops; at a value of that
  type it prepends the container producer's name and a dot and goes on from the container
  producer's first input (null if it has none). A call on element \<open>3\<close> of the container
  \<open>layers\<close> resolves to \<open>layers.3\<close>.
\<close>

theorem resolver_correct:
  "(nodes s c = Some cn \<and> is_call_kind (n_kind cn) \<and> n_inputs cn = v0 # vs
      \<and> nodes s (fst v0) = Some mn \<longrightarrow>
        (n_name mn = None \<longrightarrow> GetCallNodeVariableName s c = Some (Inr ''''))
      \<and> (n_name mn = Some nm \<and> n_inputs mn = [] \<longrightarrow>
           GetCallNodeVariableName s c = Some (Inr nm))
      \<and> (n_name mn = Some nm \<and> n_inputs mn \<noteq> [] \<longrightarrow>
           GetCallNodeVariableName s c = walk_parents s (Some (n_inputs mn ! 0)) nm))
   \<and> walk_parents s None acc = Some (Inr acc)
   \<and> (value_type s v = Some t \<and> \<not> is_ModuleList t \<longrightarrow>
        walk_parents s (Some v) acc = Some (Inr acc))
   \<and> (value_type s v = Some t \<and> is_ModuleList t \<and> nodes s (fst v) = Some pn
        \<and> n_name pn = Some cname \<longrightarrow>
        walk_parents s (Some v) acc =
          walk_parents s (if n_inputs pn = [] then None else Some (n_inputs pn ! 0))
            (cname @ ''.'' @ acc))
   \<and> GetCallNodeVariableName ex_layers 3 = Some (Inr ''layers.3'')"
proof (intro conjI impI)
  assume "nodes s c = Some cn \<and> is_call_kind (n_kind cn) \<and> n_inputs cn = v0 # vs
      \<and> nodes s (fst v0) = Some mn"
  then have *: "GetCallNodeVariableName s c =
      (case n_name mn of
         None \<Rightarrow> Some (Inr [])
       | Some module_name \<Rightarrow>
           if length (n_inputs mn) = 0 then Some (Inr module_name)
           else walk_parents s (Some (n_inputs mn ! 0)) module_name)"
    by (simp add: GetCallNodeVariableName_def)
  {
    assume "n_name mn = None"
    then show "GetCallNodeVariableName s c = Some (Inr '''')" by (simp add: *)
  next
    assume "n_name mn = Some nm \<and> n_inputs mn = []"
    then show "GetCallNodeVariableName s c = Some (Inr nm)" by (simp add: *)
  next
    assume "n_name mn = Some nm \<and> n_inputs mn \<noteq> []"
    then show "GetCallNodeVariableName s c = walk_parents s (Some (n_inputs mn ! 0)) nm"
      by (simp add: *)
  }
next
  show "walk_parents s None acc = Some (Inr acc)" by (rule walk_None)
next
  assume "value_type s v = Some t \<and> \<not> is_ModuleList t"
  then show "walk_parents s (Some v) acc = Some (Inr acc)"
    by (subst walk_parents.simps) simp
next
  assume "value_type s v = Some t \<and> is_ModuleList t \<and> nodes s (fst v) = Some pn
        \<and> n_name pn = Some cname"
  then show "walk_parents s (Some v) acc =
          walk_parents s (if n_inputs pn = [] then None else Some (n_inputs pn ! 0))
            (cname @ ''.'' @ acc)"
    by (subst walk_parents.simps) simp
next
  show "GetCallNodeVariableName ex_layers 3 = Some (Inr ''layers.3'')"
    by (simp add: GetCallNodeVariableName_def ex_layers_def ex_defs walk_parents.simps)
qed

theorem resolver_correct_witness:
  "nodes ex_layers 3 = Some (mk_node prim_CallMethod [(2, 0), (0, 1)] [OtherType] (Some ''forward'') 0)
   \<and> nodes ex_layers 2 = Some (mk_node (other_kind ''prim::GetAttr'') [(1, 0)] [Linear_ty] (Some ''3'') 0)
   \<and> value_type ex_layers (1, 0) = Some ModuleList_ty \<and> is_ModuleList ModuleList_ty
   \<and> nodes ex_layers 1 = Some (mk_node (other_kind ''prim::GetAttr'') [(0, 0)] [ModuleList_ty] (Some ''layers'') 0)
   \<and> value_type ex_layers (0, 0) = Some Model_ty \<and> \<not> is_ModuleList Model_ty
   \<and> GetCallNodeVariableName ex_layers 3 = walk_parents ex_layers (Some (1, 0)) ''3''
   \<and> walk_parents ex_layers (Some (1, 0)) ''3'' = walk_parents ex_layers (Some (0, 0)) ''layers.3''
   \<and> walk_parents ex_layers (Some (0, 0)) ''layers.3'' = Some (Inr ''layers.3'')"
  using resolver_correct [of ex_layers 3
      "mk_node prim_CallMethod [(2, 0), (0, 1)] [OtherType] (Some ''forward'') 0"
      "(2, 0)" "[(0, 1)]"
      "mk_node (other_kind ''prim::GetAttr'') [(1, 0)] [Linear_ty] (Some ''3'') 0"
      "''3''" "''3''" "(1, 0)" ModuleList_ty
      "mk_node (other_kind ''prim::GetAttr'') [(0, 0)] [ModuleList_ty] (Some ''layers'') 0"
      "''layers''"]
    resolver_correct [of ex_layers 3
      "mk_node prim_CallMethod [(2, 0), (0, 1)] [OtherType] (Some ''forward'') 0"
      "(2, 0)" "[(0, 1)]"
      "mk_node (other_kind ''prim::GetAttr'') [(1, 0)] [Linear_ty] (Some ''3'') 0"
      "''3''" "''layers.3''" "(0, 0)" Model_ty]
  by (simp add: ex_layers_def ex_defs)

text \<open>
  C8. When the container producer met in the backward walk has no \<open>name\<close> attribute, the
  resolver does not degrade to a label: the unguarded read of the attribute raises.
\<close>

theorem resolver_unnamed_container_raises:
  "GetCallNodeVariableName ex_unnamed_container 2 = Some (Inl AttributeMissing)"
  by (simp add: GetCallNodeVariableName_def ex_unnamed_container_def ex_defs
      walk_parents.simps)

















section \<open>Method calls that are not resolved\<close>

lemma set_current_scope_restore:
  "graphs s' = graphs (set_current_scope s g sc) \<Longrightarrow>
   graphs (set_current_scope s' g (current_scope s g)) = graphs s"
  by (auto simp add: set_current_scope_def current_scope_def fun_eq_iff option.map_comp
      split: option.splits)

lemma set_current_scope_undo:
  "set_current_scope (set_current_scope s g sc) g (current_scope s g) = s"
  by (cases "graphs s g")
     (auto simp add: set_current_scope_def current_scope_def fun_upd_idem)

text \<open>
  C10. A method call whose receiver has a class type that does not define a method of
  the call's name stops the pass with an error at the method lookup; the heap is as it
  was.
\<close>

theorem method_lookup_failure_aborts:
  assumes "nodes s cur = Some nd" and "n_kind nd = prim_CallMethod"
    and "n_name nd = Some name" and "n_inputs nd = v0 # vs"
    and "value_type s v0 = Some (ClassType q ms)" and "map_of ms name = None"
  shows "fcs_node fuel s g cur = Abort MethodNotFound s
    \<and> fcs_nodes fuel s g (cur # rest) = Abort MethodNotFound s"
  using assms by (simp add: fcs_node.simps method_target_def getMethod_def)

theorem method_lookup_failure_aborts_witness:
  "nodes ex_missing_method 3 = Some (mk_node prim_CallMethod [(2, 0), (0, 1)] [OtherType] (Some ''backward'') 0)
   \<and> value_type ex_missing_method (2, 0) = Some Linear_ty
   \<and> map_of [(''forward'', 0::nat)] ''backward'' = None
   \<and> fcs_node 5 ex_missing_method 0 3 = Abort MethodNotFound ex_missing_method
   \<and> fcs_nodes 5 ex_missing_method 0 [3] = Abort MethodNotFound ex_missing_method"
  using method_lookup_failure_aborts [of ex_missing_method 3
      "mk_node prim_CallMethod [(2, 0), (0, 1)] [OtherType] (Some ''backward'') 0"
      "''backward''" "(2, 0)" "[(0, 1)]" "Some [''__torch__'', ''pkg'', ''Linear'']"
      "[(''forward'', 0)]" 5 0 "[]"]
  by (simp add: ex_missing_method_def ex_layers_def upd_node_def ex_defs)

text \<open>
  C7. A method call whose receiver's static type is not a class type is passed over: the
  heap after its handling is the heap before. A method call whose method has no graph
  is handled under its scope guard and nothing else: when the scope of the call is
  computed the heap after its handling is again the heap before (the call is still in
  its block, with its inputs, outputs and scope), and otherwise the handling stops where
  the computation of the scope stops, with the heap unchanged.
\<close>

theorem unresolvable_method_untouched:
  assumes "nodes s cur = Some nd" and "n_kind nd = prim_CallMethod"
    and "n_name nd = Some name" and "n_inputs nd = v0 # vs"
    and "value_type s v0 = Some t"
  shows "((\<forall>q ms. t \<noteq> ClassType q ms) \<longrightarrow> fcs_node fuel s g cur = Done s)
    \<and> (t = ClassType q ms \<and> map_of ms name = Some f \<and> funcs s f = Some fn
         \<and> f_graph fn = None \<longrightarrow>
        (case call_scope s g cur of
           None \<Rightarrow> fcs_node fuel s g cur = Diverge
         | Some (Inl e) \<Rightarrow> fcs_node fuel s g cur = Abort e s
         | Some (Inr sc) \<Rightarrow> fcs_node fuel s g cur = Done s))"
  using assms
  by (cases t)
     (auto simp add: fcs_node.simps method_target_def getMethod_def WithCurrentScope_exit_def
        set_current_scope_undo split: option.splits sum.splits)

theorem unresolvable_method_untouched_witness:
  "fcs_node 5 ex_tensor_receiver 0 3 = Done ex_tensor_receiver
   \<and> call_scope ex_opaque 0 3 = Some (Inr [(''pkg.Linear'', ''layers.3'')])
   \<and> fcs_node 5 ex_opaque 0 3 = Done ex_opaque"
  using unresolvable_method_untouched [where s = ex_tensor_receiver and cur = 3
      and nd = "mk_node prim_CallMethod [(2, 0), (0, 1)] [OtherType] (Some ''forward'') 0"
      and name = "''forward''" and ?v0.0 = "(2, 0)" and vs = "[(0, 1)]" and t = OtherType
      and fuel = 5 and g = 0]
    unresolvable_method_untouched [where s = ex_opaque and cur = 3
      and nd = "mk_node prim_CallMethod [(2, 0), (0, 1)] [OtherType] (Some ''forward'') 0"
      and name = "''forward''" and ?v0.0 = "(2, 0)" and vs = "[(0, 1)]" and t = Linear_ty
      and q = "Some [''__torch__'', ''pkg'', ''Linear'']" and ms = "[(''forward'', 0)]"
      and f = 0
      and fn = "\<lparr>f_qualname = [''__torch__'', ''pkg'', ''Linear'', ''forward''], f_graph = None\<rparr>"
      and fuel = 5 and g = 0]
  by (simp add: ex_tensor_receiver_def ex_opaque_def ex_layers_def upd_node_def ex_defs
      call_scope_def named_type_name_def GetCallNodeVariableName_def walk_parents.simps
      push_def current_scope_def createFullScopeName_def)

section \<open>Scope guards\<close>

lemma keeps_graphs_simps [simp]:
  "keeps_graphs G (Done s) \<longleftrightarrow> graphs s = G"
  "keeps_graphs G (Abort e s) \<longleftrightarrow> graphs s = G"
  "keeps_graphs G Diverge"
  "keeps_graphs G OutOfFuel"
  by (simp_all add: keeps_graphs_def)

lemma graphs_upd_node [simp]: "graphs (upd_node s n f) = graphs s"
  by (simp add: upd_node_def)

lemma graphs_removeInput [simp]: "graphs (removeInput s n i) = graphs s"
  by (simp add: removeInput_def)

lemma graphs_removeAllInputs [simp]: "graphs (removeAllInputs s n) = graphs s"
  by (simp add: removeAllInputs_def)

lemma graphs_erase_node [simp]: "graphs (erase_node s n) = graphs s"
  by (simp add: erase_node_def split: option.splits)

lemma graphs_replaceAllUsesWith [simp]: "graphs (replaceAllUsesWith s a b) = graphs s"
  by (simp add: replaceAllUsesWith_def)

lemma graphs_replace_outputs [simp]: "graphs (replace_outputs s a vs) = graphs s"
  by (simp add: replace_outputs_def)

lemma graphs_insertGraph [simp]:
  "graphs (insertGraph s n call tb tblk callee cb cblk) = graphs s"
  by (simp add: insertGraph_def)

lemma graphs_create [simp]: "graphs (snd (create s g k ins m)) = graphs s"
  by (simp add: create_def)

lemma keeps_destroy: "graphs s = G \<Longrightarrow> keeps_graphs G (destroy s n)"
  by (simp add: destroy_def)

lemma keeps_insertAfter: "graphs s = G \<Longrightarrow> keeps_graphs G (insertAfter s a b)"
  by (simp add: insertAfter_def split: option.splits)

lemma keeps_remove_input0: "graphs s = G \<Longrightarrow> keeps_graphs G (remove_input0 s cur c)"
  by (simp add: remove_input0_def Let_def keeps_destroy)

lemma keeps_inlineCallTo: "graphs s = G \<Longrightarrow> keeps_graphs G (inlineCallTo s cur callee)"
  by (simp add: inlineCallTo_def Let_def keeps_destroy split: option.splits)

lemma keeps_and_then:
  "keeps_graphs G r \<Longrightarrow> (\<And>s. graphs s = G \<Longrightarrow> keeps_graphs G (f s)) \<Longrightarrow>
   keeps_graphs G (and_then r f)"
  by (cases r) (simp_all add: and_then_def)

lemma keeps_substitute_interpolate:
  assumes "graphs s = G"
  shows "keeps_graphs G (substitute_interpolate s g cur c)"
proof (cases "remove_input0 s cur c")
  case (Done s2)
  with keeps_remove_input0 [OF assms, of cur c] have g2: "graphs s2 = G" by simp
  show ?thesis
  proof (cases "nodes s2 cur")
    case None
    with Done g2 show ?thesis by (simp add: substitute_interpolate_def)
  next
    case (Some nd)
    obtain new s3 where cr: "create s2 g aten_interpolate (n_inputs nd) (length (n_outputs nd)) = (new, s3)"
      by (cases "create s2 g aten_interpolate (n_inputs nd) (length (n_outputs nd))")
    from graphs_create [of s2 g aten_interpolate "n_inputs nd" "length (n_outputs nd)"] cr g2
    have g3: "graphs s3 = G" by simp
    let ?s4 = "upd_node s3 new (\<lambda>x. x\<lparr>n_outputs := [n_outputs nd ! 0]\<rparr>)"
    have k: "keeps_graphs G (insertAfter ?s4 new cur)"
      by (rule keeps_insertAfter) (simp add: g3)
    show ?thesis
      using Done Some cr g3 k
      by (cases "insertAfter ?s4 new cur")
         (simp_all add: substitute_interpolate_def keeps_destroy)
  qed
qed (use keeps_remove_input0 [OF assms, of cur c] in \<open>simp_all add: substitute_interpolate_def\<close>)

lemma keeps_guard:
  "keeps_graphs (graphs (set_current_scope s g sc)) r \<Longrightarrow>
   keeps_graphs (graphs s) (WithCurrentScope_exit g (current_scope s g) r)"
  by (cases r) (simp_all add: WithCurrentScope_exit_def set_current_scope_restore)

lemma pass_keeps_graphs:
  "keeps_graphs (graphs s) (functionCallSubstitution fuel s b)"
  "keeps_graphs (graphs s) (fcs_nodes fuel s g ns)"
  "keeps_graphs (graphs s) (fcs_node fuel s g cur)"
  "keeps_graphs (graphs s) (fcs_blocks fuel s bs)"
proof (induction fuel s b and fuel s g ns and fuel s g cur and fuel s bs
    rule: functionCallSubstitution_fcs_nodes_fcs_node_fcs_blocks.induct)
  case (1 s block)
  show ?case by simp
next
  case (2 fuel s block)
  then show ?case by (simp split: option.splits)
next
  case (3 fuel s graph)
  show ?case by simp
next
  case (4 fuel s graph cur rest)
  show ?case
  proof (cases "fcs_node fuel s graph cur")
    case (Done s')
    with 4 show ?thesis by simp
  qed (use 4 in simp_all)
next
  case (5 fuel s graph cur)
  show ?case
  proof (cases "nodes s cur")
    case None
    then show ?thesis by (simp add: fcs_node.simps)
  next
    case (Some nd)
    consider (func) "n_kind nd = prim_CallFunction"
      | (meth) "n_kind nd \<noteq> prim_CallFunction" "n_kind nd = prim_CallMethod"
      | (other) "n_kind nd \<noteq> prim_CallFunction" "n_kind nd \<noteq> prim_CallMethod"
      by blast
    then show ?thesis
    proof cases
      case func
      show ?thesis
      proof (cases "function_constant s nd")
        case (Inl e)
        with Some func show ?thesis by (simp add: fcs_node.simps)
      next
        case (Inr p)
        obtain c fn where p: "p = (c, fn)" by (cases p)
        show ?thesis
        proof (cases "is_interpolate fn")
          case True
          with Some func Inr p show ?thesis
            by (simp add: fcs_node.simps keeps_substitute_interpolate)
        next
          case False
          have k0: "keeps_graphs (graphs s) (remove_input0 s cur c)"
            by (rule keeps_remove_input0) simp
          show ?thesis
          proof (cases "remove_input0 s cur c")
            case (Done s2)
            with k0 have g2: "graphs s2 = graphs s" by simp
            show ?thesis
            proof (cases "f_graph fn")
              case None
              with Some func Inr p False Done g2 show ?thesis
                by (simp add: fcs_node.simps)
            next
              case callee: (Some callee)
              show ?thesis
              proof (cases "graphs s2 callee")
                case None
                with Some func Inr p False Done g2 callee show ?thesis
                  by (simp add: fcs_node.simps)
              next
                case cgr: (Some cgr)
                have "keeps_graphs (graphs s2) (functionCallSubstitution fuel s2 (g_block cgr))"
                  using "5.IH"(1) [OF Some func Inr p [symmetric] False Done callee cgr] .
                then have "keeps_graphs (graphs s)
                    (and_then (functionCallSubstitution fuel s2 (g_block cgr))
                       (\<lambda>s3. inlineCallTo s3 cur callee))"
                  unfolding g2 by (rule keeps_and_then) (rule keeps_inlineCallTo)
                with Some func Inr p False Done callee cgr show ?thesis
                  by (simp add: fcs_node.simps)
              qed
            qed
          qed (use k0 Some func Inr p False in \<open>simp_all add: fcs_node.simps\<close>)
        qed
      qed
    next
      case meth
      show ?thesis
      proof (cases "method_target s graph cur nd")
        case None
        with Some meth show ?thesis by (simp add: fcs_node.simps)
      next
        case mt: (Some r)
        show ?thesis
        proof (cases r)
          case (Inl e)
          with Some meth mt show ?thesis by (simp add: fcs_node.simps)
        next
          case (Inr opt)
          show ?thesis
          proof (cases opt)
            case None
            with Some meth mt Inr show ?thesis by (simp add: fcs_node.simps)
          next
            case tgt: (Some q)
            obtain sc fn where q: "q = (sc, fn)" by (cases q)
            let ?s1 = "set_current_scope s graph sc"
            have body: "keeps_graphs (graphs ?s1)
               (case f_graph fn of
                  None \<Rightarrow> Done ?s1
                | Some callee \<Rightarrow>
                    WithCurrentScope_exit callee (current_scope ?s1 callee)
                      (case graphs s callee of
                         None \<Rightarrow> Abort DanglingReference (set_current_scope ?s1 callee sc)
                       | Some cgr \<Rightarrow>
                           and_then
                             (functionCallSubstitution fuel (set_current_scope ?s1 callee sc)
                                (g_block cgr))
                             (\<lambda>s3. inlineCallTo s3 cur callee)))"
            proof (cases "f_graph fn")
              case None
              then show ?thesis by simp
            next
              case callee: (Some callee)
              let ?s2 = "set_current_scope ?s1 callee sc"
              have "keeps_graphs (graphs ?s2)
                 (case graphs s callee of
                    None \<Rightarrow> Abort DanglingReference ?s2
                  | Some cgr \<Rightarrow>
                      and_then (functionCallSubstitution fuel ?s2 (g_block cgr))
                        (\<lambda>s3. inlineCallTo s3 cur callee))"
              proof (cases "graphs s callee")
                case None
                then show ?thesis by simp
              next
                case cgr: (Some cgr)
                have "keeps_graphs (graphs ?s2) (functionCallSubstitution fuel ?s2 (g_block cgr))"
                  using "5.IH"(2) [OF Some meth mt Inr tgt q [symmetric] callee cgr] .
                then have "keeps_graphs (graphs ?s2)
                    (and_then (functionCallSubstitution fuel ?s2 (g_block cgr))
                       (\<lambda>s3. inlineCallTo s3 cur callee))"
                  by (rule keeps_and_then) (rule keeps_inlineCallTo)
                with cgr show ?thesis by simp
              qed
              then show ?thesis
                unfolding callee option.case by (rule keeps_guard)
            qed
            have "keeps_graphs (graphs s)
               (WithCurrentScope_exit graph (current_scope s graph)
                 (case f_graph fn of
                    None \<Rightarrow> Done ?s1
                  | Some callee \<Rightarrow>
                      WithCurrentScope_exit callee (current_scope ?s1 callee)
                        (case graphs s callee of
                           None \<Rightarrow> Abort DanglingReference (set_current_scope ?s1 callee sc)
                         | Some cgr \<Rightarrow>
                             and_then
                               (functionCallSubstitution fuel (set_current_scope ?s1 callee sc)
                                  (g_block cgr))
                               (\<lambda>s3. inlineCallTo s3 cur callee))))"
              using body by (rule keeps_guard)
            with Some meth mt Inr tgt q show ?thesis
              by (simp add: fcs_node.simps)
          qed
        qed
      qed
    next
      case other
      let ?s1 = "if \<not> isBlank (current_scope s graph)
               then upd_node s cur (\<lambda>x. x\<lparr>n_scope := current_scope s graph\<rparr>) else s"
      have g1: "graphs ?s1 = graphs s" by simp
      have "keeps_graphs (graphs ?s1) (fcs_blocks fuel ?s1 (n_blocks nd))"
        using "5.IH"(3) [OF Some other] .
      with Some other show ?thesis
        unfolding g1 by (simp add: fcs_node.simps)
    qed
  qed
next
  case (6 fuel s)
  show ?case by simp
next
  case (7 fuel s b bs)
  show ?case
  proof (cases "functionCallSubstitution fuel s b")
    case (Done s')
    with 7 show ?thesis by simp
  qed (use 7 in simp_all)
qed

lemma scope_after_keeps:
  "keeps_graphs (graphs s) r \<Longrightarrow>
   scope_after r g = None \<or> scope_after r g = Some (current_scope s g)"
  by (cases r) (simp_all add: scope_after_def current_scope_def)

text \<open>
  C3. Whatever the handling of a node does, when it ends, normally or with an error
  raised in it or below it, every graph has the current scope it had before: each guard
  built for a call is released once, in the reverse order. The same holds for the whole
  pass with its top-level guard. (\<open>scope_after\<close> is \<open>None\<close> only for a run that does not
  end.)
\<close>

theorem scopes_restored_on_exit:
  "(scope_after (fcs_node fuel s g cur) g' = None
      \<or> scope_after (fcs_node fuel s g cur) g' = Some (current_scope s g'))
   \<and> (scope_after (functionCallSubstitution fuel s b) g' = None
      \<or> scope_after (functionCallSubstitution fuel s b) g' = Some (current_scope s g'))
   \<and> (scope_after (ONNXFunctionCallSubstitution fuel s g) g' = None
      \<or> scope_after (ONNXFunctionCallSubstitution fuel s g) g' = Some (current_scope s g'))"
proof (intro conjI)
  show "scope_after (fcs_node fuel s g cur) g' = None
      \<or> scope_after (fcs_node fuel s g cur) g' = Some (current_scope s g')"
    by (rule scope_after_keeps) (rule pass_keeps_graphs)
  show "scope_after (functionCallSubstitution fuel s b) g' = None
      \<or> scope_after (functionCallSubstitution fuel s b) g' = Some (current_scope s g')"
    by (rule scope_after_keeps) (rule pass_keeps_graphs)
  have "keeps_graphs (graphs s) (ONNXFunctionCallSubstitution fuel s g)"
  proof (cases "graphs s g")
    case None
    then show ?thesis by (simp add: ONNXFunctionCallSubstitution_def)
  next
    case (Some gr)
    have "keeps_graphs (graphs s)
        (WithCurrentScope_exit g (current_scope s g)
          (functionCallSubstitution fuel (set_current_scope s g (top_level_scope s g))
             (g_block gr)))"
      by (rule keeps_guard) (rule pass_keeps_graphs)
    with Some show ?thesis by (simp add: ONNXFunctionCallSubstitution_def)
  qed
  then show "scope_after (ONNXFunctionCallSubstitution fuel s g) g' = None
      \<or> scope_after (ONNXFunctionCallSubstitution fuel s g) g' = Some (current_scope s g')"
    by (rule scope_after_keeps)
qed

lemma ex_layers_run_Done: "is_Done (ONNXFunctionCallSubstitution 3 ex_layers 0)"
  by code_simp

lemma ex_nested_failure_run:
  "scope_after (ONNXFunctionCallSubstitution 3 ex_nested_failure 0) 1 \<noteq> None"
  "scope_after (ONNXFunctionCallSubstitution 3 ex_nested_failure 0) 0 \<noteq> None"
  "\<not> is_Done (ONNXFunctionCallSubstitution 3 ex_nested_failure 0)"
  by code_simp+

theorem scopes_restored_on_exit_witness:
  "\<not> is_Done (ONNXFunctionCallSubstitution 3 ex_nested_failure 0)
   \<and> scope_after (ONNXFunctionCallSubstitution 3 ex_nested_failure 0) 0
       = Some (current_scope ex_nested_failure 0)
   \<and> scope_after (ONNXFunctionCallSubstitution 3 ex_nested_failure 0) 1
       = Some (current_scope ex_nested_failure 1)"
  using scopes_restored_on_exit [of 3 ex_nested_failure 0 3 0 0]
    scopes_restored_on_exit [of 3 ex_nested_failure 0 3 1 0]
    ex_nested_failure_run
  by blast

section \<open>Inlining and scoping\<close>







lemma nodes_erase_node:
  "nodes (erase_node s n) m = (if m = n then None else nodes s m)"
  by (simp add: erase_node_def split: option.splits)


lemma blocks_replace_outputs [simp]: "blocks (replace_outputs s old vs) = blocks s"
  by (simp add: replace_outputs_def)

lemma next_node_replace_outputs [simp]: "next_node (replace_outputs s old vs) = next_node s"
  by (simp add: replace_outputs_def)





lemma stamp_Nil [simp]: "stamp s [] sc = s"
  by (simp add: stamp_def)


lemma plain_node_stamp [simp]: "plain_node (stamp s ns sc) n = plain_node s n"
  by (auto simp add: plain_node_def stamp_def split: option.splits)

lemma current_scope_stamp [simp]: "current_scope (stamp s ns sc) g = current_scope s g"
  by (simp add: current_scope_def stamp_def)







lemma remove_input0_Done:
  "remove_input0 s cur c =
     Done (if \<not> hasUses (removeInput s cur 0) c then erase_node (removeInput s cur 0) c
           else removeInput s cur 0)"
  by (simp add: remove_input0_def destroy_def Let_def)

lemma nodes_set_current_scope [simp]: "nodes (set_current_scope s g sc) = nodes s"
  by (simp add: set_current_scope_def)

lemma blocks_set_current_scope [simp]: "blocks (set_current_scope s g sc) = blocks s"
  by (simp add: set_current_scope_def)

subsection \<open>The allocator's invariant is kept\<close>

lemma wf_after_simps [simp]:
  "wf_after (Done s) \<longleftrightarrow> wf_alloc s"
  "wf_after (Abort e s) \<longleftrightarrow> wf_alloc s"
  "wf_after Diverge"
  "wf_after OutOfFuel"
  by (simp_all add: wf_after_def)













subsection \<open>Nodes are only added or destroyed\<close>

lemma extends_after_simps [simp]:
  "extends_after s (Done s') \<longleftrightarrow> extends s s'"
  "extends_after s (Abort e s') \<longleftrightarrow> extends s s'"
  "extends_after s Diverge"
  "extends_after s OutOfFuel"
  by (simp_all add: extends_after_def)

lemma extends_refl [simp]: "extends s s"
  by (simp add: extends_def)

lemma extends_trans: "extends s s1 \<Longrightarrow> extends s1 s2 \<Longrightarrow> extends s s2"
  unfolding extends_def by (metis (no_types, lifting) le_trans less_le_trans)

lemma extends_after_trans: "extends s s1 \<Longrightarrow> extends_after s1 r \<Longrightarrow> extends_after s r"
  by (cases r) (auto intro: extends_trans)

lemma extends_upd_node:
  "(\<And>x. n_kind (f x) = n_kind x) \<Longrightarrow> extends s (upd_node s n f)"
  by (auto simp add: extends_def upd_node_def split: if_splits)

lemma extends_removeInput: "extends s (removeInput s n i)"
  by (simp add: removeInput_def extends_upd_node)

lemma extends_removeAllInputs: "extends s (removeAllInputs s n)"
  by (simp add: removeAllInputs_def extends_upd_node)

lemma extends_erase_node: "extends s (erase_node s n)"
  by (auto simp add: extends_def erase_node_def split: option.splits if_splits)

lemma extends_replaceAllUsesWith: "extends s (replaceAllUsesWith s a b)"
  by (auto simp add: extends_def replaceAllUsesWith_def)

lemma extends_replace_outputs: "extends s (replace_outputs s a vs)"
  by (auto simp add: extends_def replace_outputs_def)

lemma extends_insertGraph: "extends s (insertGraph s n call tb tblk callee cb cblk)"
  by (auto simp add: extends_def insertGraph_def)

lemma extends_create: "extends s (snd (create s g k ins m))"
  by (auto simp add: extends_def create_def)

lemma extends_set_current_scope: "extends s (set_current_scope s g sc)"
  by (simp add: extends_def set_current_scope_def)

lemma extends_after_destroy: "extends_after s (destroy s n)"
  by (simp add: destroy_def extends_erase_node)

lemma extends_after_insertAfter: "extends_after s (insertAfter s a b)"
  by (auto simp add: insertAfter_def extends_def upd_node_def split: option.splits)

lemma extends_after_remove_input0: "extends_after s (remove_input0 s cur c)"
  by (auto simp add: remove_input0_def Let_def destroy_def
      intro: extends_trans [OF extends_removeInput extends_erase_node] extends_removeInput)

lemma extends_after_inlineCallTo: "extends_after s (inlineCallTo s cur callee)"
  by (auto simp add: inlineCallTo_def Let_def destroy_def split: option.splits
      intro: extends_insertGraph
        extends_trans [OF extends_insertGraph extends_replace_outputs]
        extends_trans [OF extends_insertGraph extends_trans [OF extends_replace_outputs extends_erase_node]])

lemma extends_after_and_then:
  "extends_after s r \<Longrightarrow> (\<And>s1. extends_after s1 (f s1)) \<Longrightarrow> extends_after s (and_then r f)"
  by (cases r) (auto simp add: and_then_def intro: extends_after_trans)

lemma extends_after_guard:
  "extends_after s r \<Longrightarrow> extends_after s (WithCurrentScope_exit g sc r)"
  by (cases r)
     (auto simp add: WithCurrentScope_exit_def intro: extends_trans extends_set_current_scope)

lemma extends_after_substitute_interpolate:
  "extends_after s (substitute_interpolate s g cur c)"
proof (cases "remove_input0 s cur c")
  case (Done s2)
  with extends_after_remove_input0 [of s cur c] have e2: "extends s s2" by simp
  show ?thesis
  proof (cases "nodes s2 cur")
    case None
    with Done e2 show ?thesis by (simp add: substitute_interpolate_def)
  next
    case (Some nd)
    obtain new s3 where cr:
      "create s2 g aten_interpolate (n_inputs nd) (length (n_outputs nd)) = (new, s3)"
      by (cases "create s2 g aten_interpolate (n_inputs nd) (length (n_outputs nd))")
    from extends_create [of s2 g aten_interpolate "n_inputs nd" "length (n_outputs nd)"] cr e2
    have e3: "extends s s3" by (auto intro: extends_trans)
    let ?s4 = "upd_node s3 new (\<lambda>x. x\<lparr>n_outputs := [n_outputs nd ! 0]\<rparr>)"
    have e4: "extends s ?s4"
      by (rule extends_trans [OF e3]) (simp add: extends_upd_node)
    have k: "extends_after s (insertAfter ?s4 new cur)"
      by (rule extends_after_trans [OF e4 extends_after_insertAfter])
    show ?thesis
    proof (cases "insertAfter ?s4 new cur")
      case d5: (Done s5)
      with k have e5: "extends s s5" by simp
      let ?s8 = "removeAllInputs
          (replaceAllUsesWith (upd_node s5 new (\<lambda>x. x\<lparr>n_scope := n_scope nd\<rparr>)) cur new) cur"
      have "extends s5 ?s8"
        by (intro extends_trans [OF _ extends_removeAllInputs]
            extends_trans [OF _ extends_replaceAllUsesWith] extends_upd_node) simp
      with e5 have "extends s ?s8" by (rule extends_trans)
      then have "extends_after s (destroy ?s8 cur)"
        by (rule extends_after_trans [OF _ extends_after_destroy])
      with Done Some cr d5 e3 show ?thesis
        by (simp add: substitute_interpolate_def)
    qed (use Done Some cr e3 k in \<open>simp_all add: substitute_interpolate_def\<close>)
  qed
qed (use extends_after_remove_input0 [of s cur c] in \<open>simp_all add: substitute_interpolate_def\<close>)

lemma pass_extends:
  "extends_after s (functionCallSubstitution fuel s b)"
  "extends_after s (fcs_nodes fuel s g ns)"
  "extends_after s (fcs_node fuel s g cur)"
  "extends_after s (fcs_blocks fuel s bs)"
proof (induction fuel s b and fuel s g ns and fuel s g cur and fuel s bs
    rule: functionCallSubstitution_fcs_nodes_fcs_node_fcs_blocks.induct)
  case (1 s block)
  show ?case by simp
next
  case (2 fuel s block)
  then show ?case by (simp split: option.splits)
next
  case (3 fuel s graph)
  show ?case by simp
next
  case (4 fuel s graph cur rest)
  show ?case
  proof (cases "fcs_node fuel s graph cur")
    case (Done s')
    with "4.IH"(1) have "extends s s'" by simp
    from extends_after_trans [OF this "4.IH"(2) [OF Done]] Done show ?thesis by simp
  qed (use 4 in simp_all)
next
  case (5 fuel s graph cur)
  show ?case
  proof (cases "nodes s cur")
    case None
    then show ?thesis by (simp add: fcs_node.simps)
  next
    case (Some nd)
    consider (func) "n_kind nd = prim_CallFunction"
      | (meth) "n_kind nd \<noteq> prim_CallFunction" "n_kind nd = prim_CallMethod"
      | (other) "n_kind nd \<noteq> prim_CallFunction" "n_kind nd \<noteq> prim_CallMethod"
      by blast
    then show ?thesis
    proof cases
      case func
      show ?thesis
      proof (cases "function_constant s nd")
        case (Inl e)
        with Some func show ?thesis by (simp add: fcs_node.simps)
      next
        case (Inr p)
        obtain c fn where p: "p = (c, fn)" by (cases p)
        show ?thesis
        proof (cases "is_interpolate fn")
          case True
          with Some func Inr p show ?thesis
            by (simp add: fcs_node.simps extends_after_substitute_interpolate)
        next
          case False
          note k0 = extends_after_remove_input0 [of s cur c]
          show ?thesis
          proof (cases "remove_input0 s cur c")
            case (Done s2)
            with k0 have e2: "extends s s2" by simp
            show ?thesis
            proof (cases "f_graph fn")
              case None
              with Some func Inr p False Done e2 show ?thesis
                by (simp add: fcs_node.simps)
            next
              case callee: (Some callee)
              show ?thesis
              proof (cases "graphs s2 callee")
                case None
                with Some func Inr p False Done e2 callee show ?thesis
                  by (simp add: fcs_node.simps)
              next
                case cgr: (Some cgr)
                have "extends_after s2 (functionCallSubstitution fuel s2 (g_block cgr))"
                  using "5.IH"(1) [OF Some func Inr p [symmetric] False Done callee cgr] .
                then have "extends_after s2
                    (and_then (functionCallSubstitution fuel s2 (g_block cgr))
                       (\<lambda>s3. inlineCallTo s3 cur callee))"
                  by (rule extends_after_and_then) (rule extends_after_inlineCallTo)
                from extends_after_trans [OF e2 this]
                  Some func Inr p False Done callee cgr show ?thesis
                  by (simp add: fcs_node.simps)
              qed
            qed
          qed (use k0 Some func Inr p False in \<open>simp_all add: fcs_node.simps\<close>)
        qed
      qed
    next
      case meth
      show ?thesis
      proof (cases "method_target s graph cur nd")
        case None
        with Some meth show ?thesis by (simp add: fcs_node.simps)
      next
        case mt: (Some r)
        show ?thesis
        proof (cases r)
          case (Inl e)
          with Some meth mt show ?thesis by (simp add: fcs_node.simps)
        next
          case (Inr opt)
          show ?thesis
          proof (cases opt)
            case None
            with Some meth mt Inr show ?thesis by (simp add: fcs_node.simps)
          next
            case tgt: (Some q)
            obtain sc fn where q: "q = (sc, fn)" by (cases q)
            let ?s1 = "set_current_scope s graph sc"
            have e1: "extends s ?s1" by (rule extends_set_current_scope)
            have body: "extends_after s
               (case f_graph fn of
                  None \<Rightarrow> Done ?s1
                | Some callee \<Rightarrow>
                    WithCurrentScope_exit callee (current_scope ?s1 callee)
                      (case graphs s callee of
                         None \<Rightarrow> Abort DanglingReference (set_current_scope ?s1 callee sc)
                       | Some cgr \<Rightarrow>
                           and_then
                             (functionCallSubstitution fuel (set_current_scope ?s1 callee sc)
                                (g_block cgr))
                             (\<lambda>s3. inlineCallTo s3 cur callee)))"
            proof (cases "f_graph fn")
              case None
              with e1 show ?thesis by simp
            next
              case callee: (Some callee)
              let ?s2 = "set_current_scope ?s1 callee sc"
              have e2: "extends s ?s2"
                by (rule extends_trans [OF e1 extends_set_current_scope])
              have "extends_after s
                 (case graphs s callee of
                    None \<Rightarrow> Abort DanglingReference ?s2
                  | Some cgr \<Rightarrow>
                      and_then (functionCallSubstitution fuel ?s2 (g_block cgr))
                        (\<lambda>s3. inlineCallTo s3 cur callee))"
              proof (cases "graphs s callee")
                case None
                with e2 show ?thesis by simp
              next
                case cgr: (Some cgr)
                have "extends_after ?s2 (functionCallSubstitution fuel ?s2 (g_block cgr))"
                  using "5.IH"(2) [OF Some meth mt Inr tgt q [symmetric] callee cgr] .
                then have "extends_after ?s2
                    (and_then (functionCallSubstitution fuel ?s2 (g_block cgr))
                       (\<lambda>s3. inlineCallTo s3 cur callee))"
                  by (rule extends_after_and_then) (rule extends_after_inlineCallTo)
                from extends_after_trans [OF e2 this] cgr show ?thesis by simp
              qed
              then show ?thesis
                unfolding callee option.case by (rule extends_after_guard)
            qed
            have "extends_after s
               (WithCurrentScope_exit graph (current_scope s graph)
                 (case f_graph fn of
                    None \<Rightarrow> Done ?s1
                  | Some callee \<Rightarrow>
                      WithCurrentScope_exit callee (current_scope ?s1 callee)
                        (case graphs s callee of
                           None \<Rightarrow> Abort DanglingReference (set_current_scope ?s1 callee sc)
                         | Some cgr \<Rightarrow>
                             and_then
                               (functionCallSubstitution fuel (set_current_scope ?s1 callee sc)
                                  (g_block cgr))
                               (\<lambda>s3. inlineCallTo s3 cur callee))))"
              using body by (rule extends_after_guard)
            with Some meth mt Inr tgt q show ?thesis
              by (simp add: fcs_node.simps)
          qed
        qed
      qed
    next
      case other
      let ?s1 = "if \<not> isBlank (current_scope s graph)
               then upd_node s cur (\<lambda>x. x\<lparr>n_scope := current_scope s graph\<rparr>) else s"
      have e1: "extends s ?s1" by (simp add: extends_upd_node)
      have "extends_after ?s1 (fcs_blocks fuel ?s1 (n_blocks nd))"
        using "5.IH"(3) [OF Some other] .
      from extends_after_trans [OF e1 this] Some other show ?thesis
        by (simp add: fcs_node.simps)
    qed
  qed
next
  case (6 fuel s)
  show ?case by simp
next
  case (7 fuel s b bs)
  show ?case
  proof (cases "functionCallSubstitution fuel s b")
    case (Done s')
    with "7.IH"(1) have "extends s s'" by simp
    from extends_after_trans [OF this "7.IH"(2) [OF Done]] Done show ?thesis by simp
  qed (use 7 in simp_all)
qed

subsection \<open>The fuel is only a bound\<close>

lemma and_then_not_OutOfFuel: "and_then r f \<noteq> OutOfFuel \<Longrightarrow> r \<noteq> OutOfFuel"
  by (cases r) (simp_all add: and_then_def)

lemma guard_not_OutOfFuel: "WithCurrentScope_exit g sc r \<noteq> OutOfFuel \<Longrightarrow> r \<noteq> OutOfFuel"
  by (cases r) (simp_all add: WithCurrentScope_exit_def)

lemma fuel_mono_step:
  "(functionCallSubstitution fuel s b \<noteq> OutOfFuel \<longrightarrow>
      functionCallSubstitution (Suc fuel) s b = functionCallSubstitution fuel s b)"
  "(fcs_nodes fuel s g ns \<noteq> OutOfFuel \<longrightarrow>
      fcs_nodes (Suc fuel) s g ns = fcs_nodes fuel s g ns)"
  "(fcs_node fuel s g cur \<noteq> OutOfFuel \<longrightarrow>
      fcs_node (Suc fuel) s g cur = fcs_node fuel s g cur)"
  "(fcs_blocks fuel s bs \<noteq> OutOfFuel \<longrightarrow>
      fcs_blocks (Suc fuel) s bs = fcs_blocks fuel s bs)"
proof (induction fuel s b and fuel s g ns and fuel s g cur and fuel s bs
    rule: functionCallSubstitution_fcs_nodes_fcs_node_fcs_blocks.induct)
  case (1 s block)
  show ?case by simp
next
  case (2 fuel s block)
  then show ?case by (simp split: option.splits)
next
  case (3 fuel s graph)
  show ?case by simp
next
  case (4 fuel s graph cur rest)
  show ?case
  proof
    assume a: "fcs_nodes fuel s graph (cur # rest) \<noteq> OutOfFuel"
    then have n: "fcs_node fuel s graph cur \<noteq> OutOfFuel"
      by (auto split: result.splits)
    with "4.IH"(1) have e: "fcs_node (Suc fuel) s graph cur = fcs_node fuel s graph cur"
      by simp
    show "fcs_nodes (Suc fuel) s graph (cur # rest) = fcs_nodes fuel s graph (cur # rest)"
    proof (cases "fcs_node fuel s graph cur")
      case (Done s')
      with a have "fcs_nodes fuel s' graph rest \<noteq> OutOfFuel" by simp
      with "4.IH"(2) [OF Done] Done e show ?thesis by simp
    qed (use e in simp_all)
  qed
next
  case (5 fuel s graph cur)
  show ?case
  proof
    assume a: "fcs_node fuel s graph cur \<noteq> OutOfFuel"
    show "fcs_node (Suc fuel) s graph cur = fcs_node fuel s graph cur"
    proof (cases "nodes s cur")
      case None
      then show ?thesis by (simp add: fcs_node.simps)
    next
      case (Some nd)
      consider (func) "n_kind nd = prim_CallFunction"
        | (meth) "n_kind nd \<noteq> prim_CallFunction" "n_kind nd = prim_CallMethod"
        | (other) "n_kind nd \<noteq> prim_CallFunction" "n_kind nd \<noteq> prim_CallMethod"
        by blast
      then show ?thesis
      proof cases
        case func
        show ?thesis
        proof (cases "function_constant s nd")
          case (Inl e)
          with Some func show ?thesis by (simp add: fcs_node.simps)
        next
          case (Inr p)
          obtain c fn where p: "p = (c, fn)" by (cases p)
          show ?thesis
          proof (cases "is_interpolate fn")
            case True
            with Some func Inr p show ?thesis by (simp add: fcs_node.simps)
          next
            case False
            show ?thesis
            proof (cases "remove_input0 s cur c")
              case (Done s2)
              show ?thesis
              proof (cases "f_graph fn")
                case None
                with Some func Inr p False Done show ?thesis by (simp add: fcs_node.simps)
              next
                case callee: (Some callee)
                show ?thesis
                proof (cases "graphs s2 callee")
                  case None
                  with Some func Inr p False Done callee show ?thesis
                    by (simp add: fcs_node.simps)
                next
                  case cgr: (Some cgr)
                  from a Some func Inr p False Done callee cgr
                  have "and_then (functionCallSubstitution fuel s2 (g_block cgr))
                      (\<lambda>s3. inlineCallTo s3 cur callee) \<noteq> OutOfFuel"
                    by (simp add: fcs_node.simps)
                  then have "functionCallSubstitution fuel s2 (g_block cgr) \<noteq> OutOfFuel"
                    by (rule and_then_not_OutOfFuel)
                  with "5.IH"(1) [OF Some func Inr p [symmetric] False Done callee cgr]
                  have "functionCallSubstitution (Suc fuel) s2 (g_block cgr)
                      = functionCallSubstitution fuel s2 (g_block cgr)"
                    by simp
                  with Some func Inr p False Done callee cgr show ?thesis
                    by (simp add: fcs_node.simps)
                qed
              qed
            qed (use Some func Inr p False in \<open>simp_all add: fcs_node.simps\<close>)
          qed
        qed
      next
        case meth
        show ?thesis
        proof (cases "method_target s graph cur nd")
          case None
          with Some meth show ?thesis by (simp add: fcs_node.simps)
        next
          case mt: (Some r)
          show ?thesis
          proof (cases r)
            case (Inl e)
            with Some meth mt show ?thesis by (simp add: fcs_node.simps)
          next
            case (Inr opt)
            show ?thesis
            proof (cases opt)
              case None
              with Some meth mt Inr show ?thesis by (simp add: fcs_node.simps)
            next
              case tgt: (Some q)
              obtain sc fn where q: "q = (sc, fn)" by (cases q)
              show ?thesis
              proof (cases "f_graph fn")
                case None
                with Some meth mt Inr tgt q show ?thesis by (simp add: fcs_node.simps)
              next
                case callee: (Some callee)
                show ?thesis
                proof (cases "graphs s callee")
                  case None
                  with Some meth mt Inr tgt q callee show ?thesis
                    by (simp add: fcs_node.simps)
                next
                  case cgr: (Some cgr)
                  let ?s2 = "set_current_scope (set_current_scope s graph sc) callee sc"
                  from a Some meth mt Inr tgt q callee cgr
                  have "WithCurrentScope_exit graph (current_scope s graph)
                     (WithCurrentScope_exit callee
                        (current_scope (set_current_scope s graph sc) callee)
                        (and_then (functionCallSubstitution fuel ?s2 (g_block cgr))
                           (\<lambda>s3. inlineCallTo s3 cur callee))) \<noteq> OutOfFuel"
                    by (simp add: fcs_node.simps)
                  then have "functionCallSubstitution fuel ?s2 (g_block cgr) \<noteq> OutOfFuel"
                    by (blast dest: and_then_not_OutOfFuel guard_not_OutOfFuel)
                  with "5.IH"(2) [OF Some meth mt Inr tgt q [symmetric] callee cgr]
                  have "functionCallSubstitution (Suc fuel) ?s2 (g_block cgr)
                      = functionCallSubstitution fuel ?s2 (g_block cgr)"
                    by simp
                  with Some meth mt Inr tgt q callee cgr show ?thesis
                    by (simp add: fcs_node.simps)
                qed
              qed
            qed
          qed
        qed
      next
        case other
        with a Some "5.IH"(3) [OF Some other] show ?thesis
          by (simp add: fcs_node.simps)
      qed
    qed
  qed
next
  case (6 fuel s)
  show ?case by simp
next
  case (7 fuel s b bs)
  show ?case
  proof
    assume a: "fcs_blocks fuel s (b # bs) \<noteq> OutOfFuel"
    then have n: "functionCallSubstitution fuel s b \<noteq> OutOfFuel"
      by (auto split: result.splits)
    with "7.IH"(1) have e: "functionCallSubstitution (Suc fuel) s b = functionCallSubstitution fuel s b"
      by simp
    show "fcs_blocks (Suc fuel) s (b # bs) = fcs_blocks fuel s (b # bs)"
    proof (cases "functionCallSubstitution fuel s b")
      case (Done s')
      with a have "fcs_blocks fuel s' bs \<noteq> OutOfFuel" by simp
      with "7.IH"(2) [OF Done] Done e show ?thesis by simp
    qed (use e in simp_all)
  qed
qed

lemma fuel_mono_node:
  "fcs_node fuel s g cur \<noteq> OutOfFuel \<Longrightarrow> fcs_node (fuel + k) s g cur = fcs_node fuel s g cur"
proof (induction k)
  case 0
  show ?case by simp
next
  case (Suc k)
  then have "fcs_node (fuel + k) s g cur \<noteq> OutOfFuel" by simp
  with fuel_mono_step(3) [of "fuel + k" s g cur] Suc show ?case by simp
qed

lemma fuel_mono_block:
  "functionCallSubstitution fuel s b \<noteq> OutOfFuel \<Longrightarrow>
   functionCallSubstitution (fuel + k) s b = functionCallSubstitution fuel s b"
proof (induction k)
  case 0
  show ?case by simp
next
  case (Suc k)
  then have "functionCallSubstitution (fuel + k) s b \<noteq> OutOfFuel" by simp
  with fuel_mono_step(1) [of "fuel + k" s b] Suc show ?case by simp
qed

subsection \<open>Inlining a resolved call\<close>














subsection \<open>The scope of a call\<close>

lemma current_scope_set_same:
  "graphs s g \<noteq> None \<Longrightarrow> current_scope (set_current_scope s g sc) g = sc"
  by (auto simp add: current_scope_def set_current_scope_def)

lemma current_scope_set_other:
  "g' \<noteq> g \<Longrightarrow> current_scope (set_current_scope s g sc) g' = current_scope s g'"
  by (simp add: current_scope_def set_current_scope_def)


lemma plain_node_set_current_scope [simp]:
  "plain_node (set_current_scope s g sc) n = plain_node s n"
  by (simp add: plain_node_def)









section \<open>The interpolate substitution\<close>

lemma function_constant_Inr:
  assumes "function_constant s nd = Inr (c, fn)"
  obtains v0 rest cnd f where "n_inputs nd = v0 # rest" "fst v0 = c" "nodes s c = Some cnd"
    "n_kind cnd = prim_Constant" "n_outputs cnd = [FunctionType f]" "funcs s f = Some fn"
  using assms
  by (auto simp add: function_constant_def length_Suc_conv
      split: list.splits option.splits if_splits ty.splits)

lemma not_hasUses_after_replace:
  assumes "new \<noteq> old"
  shows "\<not> hasUses (removeAllInputs (replaceAllUsesWith s old new) old) old"
  using assms
  by (auto simp add: hasUses_def list_ex_iff removeAllInputs_def replaceAllUsesWith_def
      upd_node_def relink_def split: option.splits if_splits)

lemma interpolate_steps:
  assumes cur: "nodes s cur = Some nd" "n_kind nd = prim_CallFunction"
    and fc: "function_constant s nd = Inr (c, fn)"
    and out: "length (n_outputs nd) = 1"
    and blk: "n_owning_block nd = Some b" "blocks s b = Some blk" "cur \<in> set (b_nodes blk)"
    and wf: "wf_alloc s"
    and cb: "\<And>cnd. nodes s c = Some cnd \<Longrightarrow> n_blocks cnd = []"
  defines "s2 \<equiv> (if \<not> hasUses (removeInput s cur 0) c then erase_node (removeInput s cur 0) c
           else removeInput s cur 0)"
  shows "\<exists>blk2. blocks s2 b = Some blk2 \<and> cur \<in> set (b_nodes blk2)"
    and "nodes s2 cur = Some (nd\<lparr>n_inputs := tl (n_inputs nd)\<rparr>)"
    and "next_node s2 = next_node s" and "cur < next_node s" and "c \<noteq> cur"
proof -
  from fc obtain v0 rest cnd f where c: "n_inputs nd = v0 # rest" "fst v0 = c"
    "nodes s c = Some cnd" "n_kind cnd = prim_Constant"
    by (rule function_constant_Inr)
  from c cur show ne: "c \<noteq> cur" by auto
  from wf cur show "cur < next_node s" by (simp add: wf_alloc_def)
  have cnd: "n_blocks cnd = []" using cb c(3) by simp
  show "nodes s2 cur = Some (nd\<lparr>n_inputs := tl (n_inputs nd)\<rparr>)"
    using ne cur c
    by (simp add: s2_def nodes_erase_node removeInput_def upd_node_def)
  show "next_node s2 = next_node s"
    by (simp add: s2_def erase_node_def removeInput_def upd_node_def split: option.splits)
  show "\<exists>blk2. blocks s2 b = Some blk2 \<and> cur \<in> set (b_nodes blk2)"
    using ne cur c blk cnd
    by (simp add: s2_def erase_node_def removeInput_def upd_node_def)
qed

lemma nodes_upd_node:
  "nodes (upd_node s n f) m = (if m = n then map_option f (nodes s n) else nodes s m)"
  by (simp add: upd_node_def)

lemma blocks_upd_node [simp]: "blocks (upd_node s n f) = blocks s"
  by (simp add: upd_node_def)

lemma next_node_upd_node [simp]: "next_node (upd_node s n f) = next_node s"
  by (simp add: upd_node_def)

lemma nodes_replaceAllUsesWith:
  "nodes (replaceAllUsesWith s old new) m =
     map_option (\<lambda>x. x\<lparr>n_inputs := map (relink old new) (n_inputs x)\<rparr>) (nodes s m)"
  by (simp add: replaceAllUsesWith_def)

lemma blocks_replaceAllUsesWith [simp]: "blocks (replaceAllUsesWith s old new) = blocks s"
  by (simp add: replaceAllUsesWith_def)

lemma next_node_replaceAllUsesWith [simp]:
  "next_node (replaceAllUsesWith s old new) = next_node s"
  by (simp add: replaceAllUsesWith_def)

lemma next_node_erase_node [simp]: "next_node (erase_node s n) = next_node s"
  by (simp add: erase_node_def split: option.splits)

lemma blocks_erase_node_owner:
  "nodes s n = Some x \<Longrightarrow> n_owning_block x = Some b \<Longrightarrow>
   blocks (erase_node s n) b =
     map_option (\<lambda>blk. blk\<lparr>b_nodes := removeAll n (b_nodes blk)\<rparr>) (blocks s b)"
  by (simp add: erase_node_def)

lemma substitute_interpolate_result:
  assumes cur: "nodes s cur = Some nd" "n_kind nd = prim_CallFunction"
    and fc: "function_constant s nd = Inr (c, fn)"
    and out: "length (n_outputs nd) = 1"
    and blk: "n_owning_block nd = Some b" "blocks s b = Some blk" "cur \<in> set (b_nodes blk)"
    and wf: "wf_alloc s"
    and cb: "\<And>cnd. nodes s c = Some cnd \<Longrightarrow> n_blocks cnd = []"
  defines "s2 \<equiv> (if \<not> hasUses (removeInput s cur 0) c then erase_node (removeInput s cur 0) c
           else removeInput s cur 0)"
  shows "\<exists>s' blk2. substitute_interpolate s g cur c = Done s'
    \<and> (\<forall>m. nodes s' m =
          (if m = cur then None
           else if m = next_node s then
             Some \<lparr>n_kind = aten_interpolate,
                   n_inputs = map (relink cur (next_node s)) (tl (n_inputs nd)),
                   n_outputs = n_outputs nd, n_blocks = [], n_scope = n_scope nd,
                   n_name = None, n_owning_block = Some b\<rparr>
           else map_option (\<lambda>x. x\<lparr>n_inputs := map (relink cur (next_node s)) (n_inputs x)\<rparr>)
                  (nodes s2 m)))
    \<and> blocks s2 b = Some blk2
    \<and> blocks s' b =
        Some (blk2\<lparr>b_nodes := removeAll cur (insert_after cur (next_node s) (b_nodes blk2))\<rparr>)
    \<and> next_node s' = Suc (next_node s)"
proof -
  note st = interpolate_steps [OF cur fc out blk wf cb, folded s2_def]
  from st(1) obtain blk2 where b2: "blocks s2 b = Some blk2" "cur \<in> set (b_nodes blk2)"
    by blast
  from out have o1: "[n_outputs nd ! 0] = n_outputs nd"
    by (cases "n_outputs nd") simp_all
  define new where "new = next_node s"
  have ne: "new \<noteq> cur" using st(4) by (simp add: new_def)
  define nd2 where "nd2 = nd\<lparr>n_inputs := tl (n_inputs nd)\<rparr>"
  define s3 where "s3 = snd (create s2 g aten_interpolate (tl (n_inputs nd)) (Suc 0))"
  have cr: "create s2 g aten_interpolate (tl (n_inputs nd)) (Suc 0) = (new, s3)"
    by (simp add: s3_def create_def st(3) new_def)
  define s4 where "s4 = upd_node s3 new (\<lambda>x. x\<lparr>n_outputs := [n_outputs nd ! 0]\<rparr>)"
  have n4: "nodes s4 m =
      (if m = new then
         Some \<lparr>n_kind = aten_interpolate, n_inputs = tl (n_inputs nd),
               n_outputs = n_outputs nd, n_blocks = [], n_scope = current_scope s2 g,
               n_name = None, n_owning_block = None\<rparr>
       else nodes s2 m)" for m
    using out by (simp add: s4_def s3_def create_def nodes_upd_node st(3) new_def o1)
  have b4: "blocks s4 = blocks s2" and x4: "next_node s4 = Suc new"
    by (simp_all add: s4_def s3_def create_def st(3) new_def)
  define s5 where "s5 = (upd_node s4 new (\<lambda>x. x\<lparr>n_owning_block := Some b\<rparr>))
      \<lparr>blocks := (blocks s4)(b \<mapsto> blk2\<lparr>b_nodes := insert_after cur new (b_nodes blk2)\<rparr>)\<rparr>"
  have ia: "insertAfter s4 new cur = Done s5"
    using ne b2 blk(1)
    by (simp add: insertAfter_def n4 st(2) b4 s5_def)
  define s8 where "s8 = removeAllInputs
      (replaceAllUsesWith (upd_node s5 new (\<lambda>x. x\<lparr>n_scope := n_scope nd\<rparr>)) cur new) cur"
  have nu: "\<not> hasUses s8 cur"
    unfolding s8_def using ne by (rule not_hasUses_after_replace)
  have run: "substitute_interpolate s g cur c = Done (erase_node s8 cur)"
    by (simp add: substitute_interpolate_def remove_input0_Done s2_def [symmetric] st(2)
        out cr s4_def [symmetric] ia s8_def [symmetric] destroy_def nu)
  have n5: "nodes s5 m = (if m = new then
         Some \<lparr>n_kind = aten_interpolate, n_inputs = tl (n_inputs nd),
               n_outputs = n_outputs nd, n_blocks = [], n_scope = current_scope s2 g,
               n_name = None, n_owning_block = Some b\<rparr>
       else nodes s2 m)" for m
    by (simp add: s5_def upd_node_def n4)
  have n8: "nodes s8 m =
      (if m = cur then Some ((nd2\<lparr>n_inputs := map (relink cur new) (n_inputs nd2)\<rparr>)\<lparr>n_inputs := []\<rparr>)
       else if m = new then
         Some \<lparr>n_kind = aten_interpolate, n_inputs = map (relink cur new) (tl (n_inputs nd)),
               n_outputs = n_outputs nd, n_blocks = [], n_scope = n_scope nd,
               n_name = None, n_owning_block = Some b\<rparr>
       else map_option (\<lambda>x. x\<lparr>n_inputs := map (relink cur new) (n_inputs x)\<rparr>) (nodes s2 m))"
    for m
    using ne
    by (simp add: s8_def removeAllInputs_def nodes_upd_node nodes_replaceAllUsesWith n5 st(2)
        nd2_def)
  have b8: "blocks s8 b = Some (blk2\<lparr>b_nodes := insert_after cur new (b_nodes blk2)\<rparr>)"
    by (simp add: s8_def removeAllInputs_def s5_def)
  have x8: "next_node s8 = Suc new"
    by (simp add: s8_def removeAllInputs_def s5_def x4)
  have ob: "n_owning_block ((nd2\<lparr>n_inputs := map (relink cur new) (n_inputs nd2)\<rparr>)\<lparr>n_inputs := []\<rparr>)
      = Some b"
    by (simp add: nd2_def blk(1))
  have nodes': "nodes (erase_node s8 cur) m =
          (if m = cur then None
           else if m = new then
             Some \<lparr>n_kind = aten_interpolate,
                   n_inputs = map (relink cur new) (tl (n_inputs nd)),
                   n_outputs = n_outputs nd, n_blocks = [], n_scope = n_scope nd,
                   n_name = None, n_owning_block = Some b\<rparr>
           else map_option (\<lambda>x. x\<lparr>n_inputs := map (relink cur new) (n_inputs x)\<rparr>)
                  (nodes s2 m))" for m
    by (simp add: nodes_erase_node n8)
  have blocks': "blocks (erase_node s8 cur) b =
        Some (blk2\<lparr>b_nodes := removeAll cur (insert_after cur new (b_nodes blk2))\<rparr>)"
    using n8 [of cur] ob by (simp add: blocks_erase_node_owner b8)
  show ?thesis
    using run nodes' b2(1) blocks' x8 unfolding new_def
    by (intro exI [of _ "erase_node s8 cur"] exI [of _ blk2]) simp
qed

lemma in_insert_after: "x \<in> set xs \<Longrightarrow> y \<in> set (insert_after x y xs)"
  by (induction xs) auto

lemma relink_fst: "new \<noteq> old \<Longrightarrow> fst (relink old new v) \<noteq> old"
  by (simp add: relink_def)

lemma map_relink_id: "\<forall>v\<in>set vs. fst v \<noteq> old \<Longrightarrow> map (relink old new) vs = vs"
  by (induction vs) (simp_all add: relink_def)

text \<open>
  C1. A function call whose callee's qualified name contains both \<open>torch.nn.functional\<close>
  and \<open>interpolate\<close> (a call as the compiler emits it: one output, in a block, its
  constant without blocks) is handled without any run over the callee's body (the result
  is the same with no fuel at all) and ends normally. Afterwards the call is gone; there
  is exactly one node that was not there before, of kind \<open>aten::__interpolate\<close>, in the
  call's block, with the call's inputs but the first, as many outputs as the call and the
  call's scope; no node has an output of the call as input, and every other node but the
  constant has the inputs it had, with each output of the call replaced by the output of
  the new node at the same offset; the constant is gone exactly when it had no use left
  after the call had lost its input 0.
\<close>

theorem interpolate_substituted:
  assumes "nodes s cur = Some nd" and "n_kind nd = prim_CallFunction"
    and "function_constant s nd = Inr (c, fn)" and "is_interpolate fn"
    and "length (n_outputs nd) = 1"
    and "n_owning_block nd = Some b" and "blocks s b = Some blk" and "cur \<in> set (b_nodes blk)"
    and "wf_alloc s"
    and "\<And>cnd. nodes s c = Some cnd \<Longrightarrow> n_blocks cnd = []"
  shows "\<exists>s'. fcs_node fuel s g cur = Done s' \<and> fcs_node 0 s g cur = Done s'
    \<and> nodes s' cur = None
    \<and> (\<exists>nn. nodes s' (next_node s) = Some nn \<and> n_kind nn = aten_interpolate
          \<and> n_inputs nn = map (relink cur (next_node s)) (tl (n_inputs nd))
          \<and> ((\<forall>v\<in>set (n_inputs nd). fst v \<noteq> cur) \<longrightarrow> n_inputs nn = tl (n_inputs nd))
          \<and> length (n_outputs nn) = length (n_outputs nd) \<and> n_scope nn = n_scope nd)
    \<and> nodes s (next_node s) = None
    \<and> (\<forall>m. m \<noteq> next_node s \<and> nodes s' m \<noteq> None \<longrightarrow> nodes s m \<noteq> None)
    \<and> (\<exists>blk'. blocks s' b = Some blk' \<and> next_node s \<in> set (b_nodes blk')
          \<and> cur \<notin> set (b_nodes blk'))
    \<and> (\<forall>m x. nodes s' m = Some x \<longrightarrow> (\<forall>v\<in>set (n_inputs x). fst v \<noteq> cur))
    \<and> (\<forall>m x. m \<noteq> cur \<and> m \<noteq> c \<and> nodes s m = Some x \<longrightarrow>
          nodes s' m = Some (x\<lparr>n_inputs := map (relink cur (next_node s)) (n_inputs x)\<rparr>))
    \<and> (nodes s' c = None \<longleftrightarrow> \<not> hasUses (removeInput s cur 0) c)"
proof -
  define s2 where "s2 = (if \<not> hasUses (removeInput s cur 0) c
      then erase_node (removeInput s cur 0) c else removeInput s cur 0)"
  define new where "new = next_node s"
  note st = interpolate_steps [OF assms(1,2,3,5,6,7,8,9,10), folded s2_def]
  from substitute_interpolate_result [OF assms(1,2,3,5,6,7,8,9,10), of g, folded s2_def new_def]
  obtain s' blk2 where r: "substitute_interpolate s g cur c = Done s'"
    and n: "\<And>m. nodes s' m =
          (if m = cur then None
           else if m = new then
             Some \<lparr>n_kind = aten_interpolate,
                   n_inputs = map (relink cur new) (tl (n_inputs nd)),
                   n_outputs = n_outputs nd, n_blocks = [], n_scope = n_scope nd,
                   n_name = None, n_owning_block = Some b\<rparr>
           else map_option (\<lambda>x. x\<lparr>n_inputs := map (relink cur new) (n_inputs x)\<rparr>)
                  (nodes s2 m))"
    and b2: "blocks s2 b = Some blk2"
    and b': "blocks s' b =
        Some (blk2\<lparr>b_nodes := removeAll cur (insert_after cur new (b_nodes blk2))\<rparr>)"
    by blast
  have ne: "new \<noteq> cur" using st(4) by (simp add: new_def)
  from assms(3) obtain cnd where cnd: "nodes s c = Some cnd"
    by (rule function_constant_Inr)
  with assms(9) have cl: "c < next_node s" by (simp add: wf_alloc_def)
  have fresh: "nodes s new = None"
    using assms(9) by (auto simp add: wf_alloc_def new_def)
  have n2: "nodes s2 m = (if m = cur then Some (nd\<lparr>n_inputs := tl (n_inputs nd)\<rparr>)
      else if m = c \<and> \<not> hasUses (removeInput s cur 0) c then None else nodes s m)" for m
    using st(5) assms(1)
    by (simp add: s2_def nodes_erase_node removeInput_def nodes_upd_node drop_Suc)
  have run: "fcs_node k s g cur = Done s'" for k
    using assms(1-4) r by (simp add: fcs_node.simps)
  have c1: "nodes s' cur = None" by (simp add: n)
  have c2: "\<exists>nn. nodes s' new = Some nn \<and> n_kind nn = aten_interpolate
          \<and> n_inputs nn = map (relink cur new) (tl (n_inputs nd))
          \<and> ((\<forall>v\<in>set (n_inputs nd). fst v \<noteq> cur) \<longrightarrow> n_inputs nn = tl (n_inputs nd))
          \<and> length (n_outputs nn) = length (n_outputs nd) \<and> n_scope nn = n_scope nd"
  proof -
    have "(\<forall>v\<in>set (n_inputs nd). fst v \<noteq> cur) \<longrightarrow>
        map (relink cur new) (tl (n_inputs nd)) = tl (n_inputs nd)"
      by (cases "n_inputs nd") (simp_all add: map_relink_id)
    with ne show ?thesis by (simp add: n)
  qed
  have c3: "\<forall>m. m \<noteq> new \<and> nodes s' m \<noteq> None \<longrightarrow> nodes s m \<noteq> None"
    using assms(1) by (auto simp add: n n2 split: if_splits)
  have c4: "\<exists>blk'. blocks s' b = Some blk' \<and> new \<in> set (b_nodes blk')
          \<and> cur \<notin> set (b_nodes blk')"
  proof -
    from st(1) b2 have "cur \<in> set (b_nodes blk2)" by simp
    then have "new \<in> set (insert_after cur new (b_nodes blk2))" by (rule in_insert_after)
    with ne show ?thesis by (simp add: b')
  qed
  have c5: "\<forall>m x. nodes s' m = Some x \<longrightarrow> (\<forall>v\<in>set (n_inputs x). fst v \<noteq> cur)"
    using ne by (auto simp add: n relink_def split: if_splits)
  have c6: "\<forall>m x. m \<noteq> cur \<and> m \<noteq> c \<and> nodes s m = Some x \<longrightarrow>
          nodes s' m = Some (x\<lparr>n_inputs := map (relink cur new) (n_inputs x)\<rparr>)"
    using fresh by (auto simp add: n n2)
  have c7: "nodes s' c = None \<longleftrightarrow> \<not> hasUses (removeInput s cur 0) c"
    using st(5) cl cnd by (auto simp add: n n2 new_def)
  note facts = run [of fuel] run [of 0] c1 c2 fresh c3 c4 c5 c6 c7
  show ?thesis
    apply (rule exI [of _ s'])
    apply (insert facts [unfolded new_def])
    apply (intro conjI)
    apply assumption+
    done
qed

lemma wf_alloc_ex_interpolate: "wf_alloc ex_interpolate"
  by (auto simp add: wf_alloc_def ex_interpolate_def ex_function_def split: if_splits)

theorem interpolate_substituted_witness:
  "is_Done (fcs_node 0 ex_interpolate 0 2)
   \<and> node_after (fcs_node 0 ex_interpolate 0 2) 2 = None
   \<and> map_option n_kind (node_after (fcs_node 0 ex_interpolate 0 2) 7) = Some aten_interpolate
   \<and> map_option n_inputs (node_after (fcs_node 0 ex_interpolate 0 2) 7) = Some [(0, 1)]
   \<and> map_option n_inputs (node_after (fcs_node 0 ex_interpolate 0 2) 3) = Some [(7, 0)]"
proof -
  let ?nd = "mk_node prim_CallFunction [(1, 0), (0, 1)] [OtherType] None 0"
  let ?fn = "\<lparr>f_qualname = [''__torch__'', ''torch'', ''nn'', ''functional'', ''interpolate''],
             f_graph = Some 1\<rparr>"
  have h1: "nodes ex_interpolate 2 = Some ?nd"
    by (simp add: ex_interpolate_def ex_function_def)
  have h2: "n_kind ?nd = prim_CallFunction" "length (n_outputs ?nd) = 1"
    "n_owning_block ?nd = Some 0"
    by (simp_all add: mk_node_def)
  have h3: "function_constant ex_interpolate ?nd = Inr (1, ?fn)"
    by (simp add: function_constant_def ex_interpolate_def ex_function_def mk_node_def)
  have h4: "is_interpolate ?fn"
    by (simp add: is_interpolate_def qualifiedName_def)
  have h5: "blocks ex_interpolate 0
      = Some \<lparr>b_nodes = [1, 2], b_param = 0, b_return = 3, b_owning_graph = 0\<rparr>"
    by (simp add: ex_interpolate_def ex_function_def)
  have h6: "2 \<in> set (b_nodes \<lparr>b_nodes = [1, 2], b_param = 0, b_return = 3, b_owning_graph = 0::nat\<rparr>)"
    by simp
  have h7: "\<And>cnd. nodes ex_interpolate 1 = Some cnd \<Longrightarrow> n_blocks cnd = []"
    by (auto simp add: ex_interpolate_def ex_function_def mk_node_def)
  have h8: "nodes ex_interpolate 3 = Some (mk_node prim_Return [(2, 0)] [] None 0)"
    "next_node ex_interpolate = 7"
    by (simp_all add: ex_interpolate_def ex_function_def)
  from interpolate_substituted [OF h1 h2(1) h3 h4 h2(2) h2(3) h5 h6 wf_alloc_ex_interpolate h7,
      of 0 0]
  obtain s' where r: "fcs_node 0 ex_interpolate 0 2 = Done s'" "nodes s' 2 = None"
    and nn: "\<exists>nn. nodes s' (next_node ex_interpolate) = Some nn \<and> n_kind nn = aten_interpolate
       \<and> n_inputs nn = map (relink 2 (next_node ex_interpolate)) (tl (n_inputs ?nd))"
    and rd: "\<forall>m x. m \<noteq> 2 \<and> m \<noteq> 1 \<and> nodes ex_interpolate m = Some x \<longrightarrow>
          nodes s' m = Some (x\<lparr>n_inputs := map (relink 2 (next_node ex_interpolate)) (n_inputs x)\<rparr>)"
    by blast
  from rd h8(1) have "nodes s' 3 = Some ((mk_node prim_Return [(2, 0)] [] None 0)
      \<lparr>n_inputs := map (relink 2 (next_node ex_interpolate)) (n_inputs (mk_node prim_Return [(2, 0)] [] None 0))\<rparr>)"
    by simp
  with r nn h8(2) show ?thesis
    by (auto simp add: is_Done_def node_after_def mk_node_def relink_def)
qed

end
